theory Spec2Isabelle
  imports Complex_Main "HOL-Library.Char_ord" "HOL-Library.List_Lexorder"
begin

section \<open>Conventions of the embedding\<close>

text \<open>
  The Python sources are embedded as HOL functions over explicit state. Clock readings
  (\<^verbatim>\<open>time.time()\<close>) are arguments of type \<^typ>\<open>real\<close>; the rounding of IEEE doubles
  is not modelled. A Python \<^verbatim>\<open>str\<close> is a \<^typ>\<open>string\<close> whose characters stand for
  the code points 0..255. Queues are lists with the head as the front. Every
  \<^verbatim>\<open>raise\<close> of the source is a branch of the model.
\<close>

section \<open>irc.py: TwitchLimiter\<close>

definition MSG_LIMIT :: int where "MSG_LIMIT = 20"
definition MSG_WINDOW :: real where "MSG_WINDOW = 30"
definition MIN_MSG_DELAY :: real where "MIN_MSG_DELAY = 8 / 5"

record limiter_metrics =
  total_attempts :: nat
  allowed_messages :: nat
  rate_limited :: nat
  min_delay_blocked :: nat
  avg_delay :: real

record TwitchLimiter =
  limit :: int
  window :: real
  min_delay :: real
  events :: "real list"
  last_message :: real
  metrics :: limiter_metrics
  start_time :: real

text \<open>\<^verbatim>\<open>TwitchLimiter.__init__(limit, window, min_delay)\<close>; \<open>t0\<close> is the clock at construction.\<close>

definition TwitchLimiter_init :: "int \<Rightarrow> real \<Rightarrow> real \<Rightarrow> real \<Rightarrow> TwitchLimiter" where
  "TwitchLimiter_init l w d t0 =
     \<lparr>limit = l, window = w, min_delay = d, events = [], last_message = 0,
      metrics = \<lparr>total_attempts = 0, allowed_messages = 0, rate_limited = 0,
                 min_delay_blocked = 0, avg_delay = 0\<rparr>,
      start_time = t0\<rparr>"

text \<open>\<^verbatim>\<open>while self.events and now - self.events[0] > self.window: self.events.popleft()\<close>\<close>

fun evict :: "real \<Rightarrow> real \<Rightarrow> real list \<Rightarrow> real list" where
  "evict w now [] = []"
| "evict w now (e # es) = (if now - e > w then evict w now es else e # es)"

text \<open>\<^verbatim>\<open>[self.events[i] - self.events[i-1] for i in range(1, len(self.events))]\<close>\<close>

fun delays :: "real list \<Rightarrow> real list" where
  "delays (a # b # xs) = (b - a) # delays (b # xs)"
| "delays xs = []"

definition allow :: "TwitchLimiter \<Rightarrow> real \<Rightarrow> bool \<times> TwitchLimiter" where
  "allow self now =
     (let m1 = (metrics self)\<lparr>total_attempts := total_attempts (metrics self) + 1\<rparr> in
      if now - last_message self < min_delay self then
        (False, self\<lparr>metrics := m1\<lparr>min_delay_blocked := min_delay_blocked m1 + 1\<rparr>\<rparr>)
      else
        let evs = evict (window self) now (events self) in
        if int (length evs) < limit self then
          let evs' = evs @ [now];
              m2 = m1\<lparr>allowed_messages := allowed_messages m1 + 1\<rparr>;
              m3 = (if length evs' > 1
                    then m2\<lparr>avg_delay := sum_list (delays evs') / real (length (delays evs'))\<rparr>
                    else m2)
          in (True, self\<lparr>events := evs', last_message := now, metrics := m3\<rparr>)
        else
          (False, self\<lparr>events := evs, metrics := m1\<lparr>rate_limited := rate_limited m1 + 1\<rparr>\<rparr>))"

text \<open>
  A sequence of \<^verbatim>\<open>allow()\<close> calls on one limiter, the \<open>i\<close>-th call reading the clock
  value \<open>ts ! i\<close>: the results in call order and the final limiter.
\<close>

fun allow_seq :: "TwitchLimiter \<Rightarrow> real list \<Rightarrow> bool list \<times> TwitchLimiter" where
  "allow_seq self [] = ([], self)"
| "allow_seq self (t # ts) =
     (case allow self t of (r, self1) \<Rightarrow>
        (case allow_seq self1 ts of (rs, self2) \<Rightarrow> (r # rs, self2)))"

text \<open>The clock readings of the calls that returned \<^verbatim>\<open>True\<close>, in call order.\<close>

definition successes :: "real list \<Rightarrow> bool list \<Rightarrow> real list" where
  "successes ts rs = map fst (filter snd (zip ts rs))"

text \<open>The successes that lie in the trailing window \<open>[t - w, t]\<close>.\<close>

definition in_window :: "real \<Rightarrow> real \<Rightarrow> real list \<Rightarrow> real list" where
  "in_window w t xs = filter (\<lambda>a. t - w \<le> a \<and> a \<le> t) xs"

text \<open>The invariant of the limiter against the history \<open>h\<close> of clock readings it accepted:
  successive accepted readings are at least \<open>min_delay\<close> apart, none is later than
  \<open>last_message\<close>, the deque is a suffix of the history whose evicted part is out of
  reach of the next acceptance, and no trailing window holds more than \<open>limit\<close>.\<close>

definition lim_inv :: "TwitchLimiter \<Rightarrow> real list \<Rightarrow> bool" where
  "lim_inv s h \<longleftrightarrow>
     sorted_wrt (\<lambda>a b. a + min_delay s \<le> b) h \<and>
     (\<forall>a\<in>set h. a \<le> last_message s) \<and>
     (\<exists>pre. h = pre @ events s \<and>
        (\<forall>p\<in>set pre. p + window s < last_message s + min_delay s
                     \<or> limit s \<le> int (length (events s)))) \<and>
     (\<forall>t. int (length (in_window (window s) t h)) \<le> limit s)"

section \<open>Python string operations used by the sources\<close>

text \<open>\<^verbatim>\<open>s.startswith(p)\<close>\<close>

definition startswith :: "string \<Rightarrow> string \<Rightarrow> bool" where
  "startswith s p \<longleftrightarrow> take (length p) s = p"

text \<open>\<^verbatim>\<open>p in s\<close> for strings\<close>

fun contains :: "string \<Rightarrow> string \<Rightarrow> bool" where
  "contains [] p \<longleftrightarrow> p = []"
| "contains (c # cs) p \<longleftrightarrow> startswith (c # cs) p \<or> contains cs p"

text \<open>The text before and after the first occurrence of a non-empty separator.\<close>

fun find_sep :: "string \<Rightarrow> string \<Rightarrow> (string \<times> string) option" where
  "find_sep sep [] = None"
| "find_sep sep (c # cs) =
     (if startswith (c # cs) sep then Some ([], drop (length sep) (c # cs))
      else (case find_sep sep cs of None \<Rightarrow> None | Some (a, b) \<Rightarrow> Some (c # a, b)))"

text \<open>\<^verbatim>\<open>s.split(sep, 1)\<close>\<close>

definition split1 :: "string \<Rightarrow> string \<Rightarrow> string list" where
  "split1 s sep = (case find_sep sep s of None \<Rightarrow> [s] | Some (a, b) \<Rightarrow> [a, b])"

text \<open>\<^verbatim>\<open>s.split(sep)\<close> for a non-empty separator: \<open>k\<close> counts the characters of a matched
  separator still to be skipped, \<open>cur\<close> is the current piece, reversed.\<close>

fun split_go :: "string \<Rightarrow> nat \<Rightarrow> string \<Rightarrow> string \<Rightarrow> string list" where
  "split_go sep k cur [] = [rev cur]"
| "split_go sep k cur (c # cs) =
     (if k > 0 then split_go sep (k - 1) cur cs
      else if startswith (c # cs) sep then rev cur # split_go sep (length sep - 1) [] cs
      else split_go sep 0 (c # cur) cs)"

definition py_split :: "string \<Rightarrow> string \<Rightarrow> string list" where
  "py_split s sep = split_go sep 0 [] s"

text \<open>\<^verbatim>\<open>str.isspace\<close> on the code points below 256\<close>

definition is_space :: "char \<Rightarrow> bool" where
  "is_space c \<longleftrightarrow> (of_char c :: nat) \<in> set [9, 10, 11, 12, 13, 28, 29, 30, 31, 32, 133, 160]"

text \<open>\<^verbatim>\<open>s.strip()\<close>\<close>

definition strip :: "string \<Rightarrow> string" where
  "strip s = rev (dropWhile is_space (rev (dropWhile is_space s)))"

text \<open>\<^verbatim>\<open>s.lstrip(chars)\<close>\<close>

definition lstrip :: "string \<Rightarrow> string \<Rightarrow> string" where
  "lstrip s chars = dropWhile (\<lambda>c. c \<in> set chars) s"

text \<open>\<^verbatim>\<open>s.lower()\<close> on the code points below 256\<close>

definition lower_char :: "char \<Rightarrow> char" where
  "lower_char c =
     (let n = (of_char c :: nat) in
      if (65 \<le> n \<and> n \<le> 90) \<or> (192 \<le> n \<and> n \<le> 222 \<and> n \<noteq> 215) then char_of (n + 32) else c)"

definition lower :: "string \<Rightarrow> string" where
  "lower s = map lower_char s"

text \<open>\<^verbatim>\<open>sep.join(xs)\<close>\<close>

fun join :: "string \<Rightarrow> string list \<Rightarrow> string" where
  "join sep [] = []"
| "join sep [x] = x"
| "join sep (x # y # ys) = x @ sep @ join sep (y # ys)"

text \<open>\<^verbatim>\<open>str(n)\<close> for a natural number\<close>

function str_nat :: "nat \<Rightarrow> string" where
  "str_nat n = (if n < 10 then [char_of (48 + n)] else str_nat (n div 10) @ [char_of (48 + n mod 10)])"
  by pat_completeness auto
termination
  by (relation "measure id") auto

section \<open>Runtime context and queue payloads\<close>

text \<open>The Python values that travel through the queues and to the subscribers.\<close>

datatype pyval =
    Str string
  | Num int
  | Float real
  | Bytes string
  | B64 string
  | NoneVal
  | Dict "(string \<times> pyval) list"
  | Tuple "pyval list"

text \<open>Entries of the shared \<^verbatim>\<open>bot_state\<close> dictionary.\<close>

datatype bot_val = BStr string | BBool bool | BLast string real

text \<open>\<^verbatim>\<open>TwitchLimiter.get_metrics()\<close> result.\<close>

record limiter_report =
  rep_metrics :: limiter_metrics
  rep_runtime_seconds :: real
  rep_messages_per_minute :: real

text \<open>The dictionary that \<^verbatim>\<open>cleanup\<close> dumps into the metrics file.\<close>

record metrics_snapshot =
  snap_shard_id :: string
  snap_channels :: "string list"
  snap_message_count :: nat
  snap_runtime_seconds :: real
  snap_rate_limiter_metrics :: limiter_report

text \<open>
  \<^verbatim>\<open>RuntimeContext\<close>, with the data logger's two logs and the files written under the data
  directory. A system log entry is (event, channel, level) and a chat log entry is
  (channel, user, type, message); the other columns of the rows (timestamp, free-text
  details, experiment id, delay, message length) are left out.
\<close>

record runtime_context =
  gui_queue :: "pyval list"
  send_queue :: "(string \<times> string) list"
  control_queue :: "string list"
  bot_state :: "string \<rightharpoonup> bot_val"
  active_channels :: "string set"
  system_log :: "(string \<times> string \<times> string) list"
  chat_log :: "(string \<times> string \<times> string \<times> string) list"
  files :: "(string \<times> metrics_snapshot) list"

section \<open>irc.py: IRCShard\<close>

definition BOT_USERNAME :: string where "BOT_USERNAME = []"
definition TWITCH_OAUTH :: string where "TWITCH_OAUTH = []"

text \<open>A socket: \<open>alive\<close> while sending succeeds, \<open>sent\<close> the data sent so far.\<close>

record socket =
  alive :: bool
  sent :: "string list"

record IRCShard =
  channels :: "string list"
  shard_id :: string
  ctx :: runtime_context
  sock :: "socket option"
  buffer :: string
  limiter :: TwitchLimiter
  running :: bool
  reconnect_delay :: nat
  message_count :: nat
  shard_start_time :: real
  username :: string
  data_dir :: "string option"
  channel_users :: "string \<rightharpoonup> string set"
  slept :: "real list"
  naps :: nat

text \<open>The line terminator \<^verbatim>\<open>\r\n\<close>.\<close>

definition CRLF :: string where "CRLF = [CHR 0x0D, CHR 0x0A]"

text \<open>\<^verbatim>\<open>IRCShard.__init__(channels, shard_id, context)\<close>; \<open>dd\<close> is the context's data
  directory, \<open>t0\<close> the clock. \<open>slept\<close> records the reconnect waits
  \<^verbatim>\<open>time.sleep(self.reconnect_delay)\<close>, \<open>naps\<close> counts the \<^verbatim>\<open>time.sleep(0.05)\<close> of the send loop.\<close>

definition IRCShard_init ::
  "string list \<Rightarrow> string \<Rightarrow> runtime_context \<Rightarrow> string option \<Rightarrow> real \<Rightarrow> IRCShard" where
  "IRCShard_init chans sid c dd t0 =
     \<lparr>channels = chans, shard_id = sid, ctx = c, sock = None, buffer = [],
      limiter = TwitchLimiter_init MSG_LIMIT MSG_WINDOW MIN_MSG_DELAY t0,
      running = True, reconnect_delay = 1, message_count = 0, shard_start_time = t0,
      username = (case bot_state c ''bot_username'' of Some (BStr u) \<Rightarrow> u | _ \<Rightarrow> BOT_USERNAME),
      data_dir = dd,
      channel_users = map_of (map (\<lambda>chan. (lower chan, {})) chans),
      slept = [], naps = 0\<rparr>"

text \<open>\<^verbatim>\<open>self.sock.send(data)\<close>: \<open>None\<close> when it raises (no socket, or a dead one).\<close>

definition sock_send :: "IRCShard \<Rightarrow> string \<Rightarrow> IRCShard option" where
  "sock_send self data =
     (case sock self of
        None \<Rightarrow> None
      | Some sk \<Rightarrow> if alive sk then Some (self\<lparr>sock := Some (sk\<lparr>sent := sent sk @ [data]\<rparr>)\<rparr>)
                   else None)"

definition gui_put :: "pyval \<Rightarrow> IRCShard \<Rightarrow> IRCShard" where
  "gui_put item self = self\<lparr>ctx := (ctx self)\<lparr>gui_queue := gui_queue (ctx self) @ [item]\<rparr>\<rparr>"

definition log_system :: "string \<Rightarrow> string \<Rightarrow> string \<Rightarrow> IRCShard \<Rightarrow> IRCShard" where
  "log_system ev chan lvl self =
     self\<lparr>ctx := (ctx self)\<lparr>system_log := system_log (ctx self) @ [(ev, chan, lvl)]\<rparr>\<rparr>"

text \<open>\<^verbatim>\<open>DataLogger.log_chat\<close> writes the user as \<^verbatim>\<open>user.lower()\<close>.\<close>

definition log_chat :: "string \<Rightarrow> string \<Rightarrow> string \<Rightarrow> string \<Rightarrow> IRCShard \<Rightarrow> IRCShard" where
  "log_chat chan user ty msg self =
     self\<lparr>ctx := (ctx self)\<lparr>chat_log := chat_log (ctx self) @ [(chan, lower user, ty, msg)]\<rparr>\<rparr>"

text \<open>The first loop of \<^verbatim>\<open>part_channels\<close>: a failed send skips the notice as well.\<close>

fun part_each :: "IRCShard \<Rightarrow> string list \<Rightarrow> IRCShard" where
  "part_each self [] = self"
| "part_each self (chan # rest) =
     (case sock_send self (''PART #'' @ chan @ CRLF) of
        None \<Rightarrow> part_each self rest
      | Some self1 \<Rightarrow>
          part_each (gui_put (Tuple [Str chan, Str ''SYSTEM'', Str (''Bot parted #'' @ chan)]) self1) rest)"

definition part_channels :: "IRCShard \<Rightarrow> string list \<Rightarrow> IRCShard" where
  "part_channels self channels_to_part =
     (if sock self = None then self
      else
        let self1 = part_each self channels_to_part;
            self2 = self1\<lparr>channels := filter (\<lambda>c. c \<notin> set channels_to_part) (channels self1)\<rparr>
        in self2\<lparr>channel_users :=
                   fold (\<lambda>chan m. m(lower chan := None)) channels_to_part (channel_users self2)\<rparr>)"

text \<open>\<^verbatim>\<open>TwitchLimiter.get_metrics()\<close> at clock \<open>now\<close>.\<close>

definition get_metrics :: "TwitchLimiter \<Rightarrow> real \<Rightarrow> limiter_report" where
  "get_metrics lm now =
     (let runtime = now - start_time lm in
      \<lparr>rep_metrics = metrics lm, rep_runtime_seconds = runtime,
       rep_messages_per_minute =
         (if runtime > 0 then real (allowed_messages (metrics lm)) / runtime * 60 else 0)\<rparr>)"

text \<open>\<^verbatim>\<open>IRCShard.cleanup()\<close> at clock \<open>now\<close>.\<close>

definition cleanup :: "IRCShard \<Rightarrow> real \<Rightarrow> IRCShard" where
  "cleanup self now =
     (let self1 = (if sock self \<noteq> None \<and> channels self \<noteq> []
                   then part_channels self (channels self) else self);
          self2 = (case sock self1 of
                     None \<Rightarrow> self1
                   | Some sk \<Rightarrow> self1\<lparr>sock := Some (sk\<lparr>alive := False\<rparr>)\<rparr>)
      in case data_dir self2 of
           None \<Rightarrow> self2
         | Some d \<Rightarrow>
             self2\<lparr>ctx := (ctx self2)\<lparr>files := files (ctx self2) @
               [(d @ ''/shard_'' @ shard_id self2 @ ''_metrics.json'',
                 \<lparr>snap_shard_id = shard_id self2,
                  snap_channels = channels self2,
                  snap_message_count = message_count self2,
                  snap_runtime_seconds = now - shard_start_time self2,
                  snap_rate_limiter_metrics = get_metrics (limiter self2) now\<rparr>)]\<rparr>\<rparr>)"

text \<open>The loop of \<^verbatim>\<open>connect\<close> over the channels: reset the speaker set, tell the GUI.\<close>

fun announce_each :: "IRCShard \<Rightarrow> string list \<Rightarrow> IRCShard" where
  "announce_each self [] = self"
| "announce_each self (chan # rest) =
     announce_each
       (gui_put (Tuple [Str (lower chan), Str ''SYSTEM'',
                        Str ''Collecting chatters in real-time from joins, parts & messages...''])
          (self\<lparr>channel_users := (channel_users self)(lower chan \<mapsto> {})\<rparr>))
       rest"

text \<open>
  \<^verbatim>\<open>IRCShard.connect(self.channels)\<close>. \<open>reachable\<close> says whether the server accepts the
  connection; \<open>Inl\<close> is the state in which the exception leaves the method.
\<close>

definition connect :: "IRCShard \<Rightarrow> bool \<Rightarrow> IRCShard + IRCShard" where
  "connect self reachable =
     (let real_token = (case bot_state (ctx self) ''oauth_token'' of
                          Some (BStr t) \<Rightarrow> t | Some _ \<Rightarrow> [] | None \<Rightarrow> TWITCH_OAUTH)
      in if \<not> reachable then Inl (self\<lparr>sock := Some \<lparr>alive = False, sent = []\<rparr>\<rparr>)
         else
           let self1 = self\<lparr>sock := Some \<lparr>alive = True,
                   sent = [''PASS '' @ real_token @ CRLF,
                           ''NICK '' @ username self @ CRLF,
                           ''CAP REQ :twitch.tv/tags twitch.tv/commands twitch.tv/membership'' @ CRLF]\<rparr>\<rparr>;
               self2 = (if channels self1 = [] then Some self1
                        else map_option (\<lambda>s. announce_each s (channels s))
                          (sock_send self1
                             (''JOIN '' @ join '','' (map (\<lambda>c. ''#'' @ c) (channels self1)) @ CRLF)))
           in case self2 of
                None \<Rightarrow> Inl self1
              | Some self3 \<Rightarrow>
                  Inr (log_system ''SHARD_CONNECTED'' ''ALL'' ''INFO''
                        (gui_put (Tuple [Str ''SYSTEM'', Str ''SYSTEM'',
                           Str (''Shard '' @ shard_id self3 @ '' connected to '' @
                                str_nat (length (channels self3)) @ '' channels'')]) self3)))"

text \<open>The tag map of a line that starts with \<^verbatim>\<open>@\<close>.\<close>

definition parse_tags :: "string \<Rightarrow> (string \<rightharpoonup> string)" where
  "parse_tags tag_part =
     fold (\<lambda>item tags. if contains item ''='' then
                            (case split1 item ''='' of [key, val] \<Rightarrow> tags(key \<mapsto> val) | _ \<Rightarrow> tags)
                         else tags)
       (py_split (drop 1 tag_part) '';'') Map.empty"

text \<open>Real-time tracking: a speaker not yet known on a tracked channel is added and logged.\<close>

definition track_user :: "string \<Rightarrow> string \<Rightarrow> IRCShard \<Rightarrow> IRCShard" where
  "track_user chan user self =
     (case channel_users self chan of
        None \<Rightarrow> self
      | Some users \<Rightarrow>
          if user \<in> users then self
          else log_system ''USER_PRESENT'' chan ''INFO''
                 (self\<lparr>channel_users := (channel_users self)(chan \<mapsto> insert user users)\<rparr>))"

text \<open>\<^verbatim>\<open>raw_user = header.split("!")[0][1:] if "!" in header else "Unknown"\<close>\<close>

definition raw_user_of :: "string \<Rightarrow> string" where
  "raw_user_of header =
     (if contains header ''!'' then drop 1 (hd (py_split header ''!'')) else ''Unknown'')"

text \<open>
  \<^verbatim>\<open>IRCShard.parse_privmsg(line)\<close>. The body of the \<^verbatim>\<open>try\<close> raises only where a tuple
  unpacking fails; the handler logs \<^verbatim>\<open>PARSE_ERROR\<close>. The analyzer of the R&D build is
  absent, so its branch is skipped.
\<close>

definition parse_privmsg :: "IRCShard \<Rightarrow> string \<Rightarrow> IRCShard" where
  "parse_privmsg self line0 =
     (case (if startswith line0 ''@'' then
              (case split1 line0 '' '' of
                 [tag_part, rest] \<Rightarrow> Some (parse_tags tag_part, rest)
               | _ \<Rightarrow> None)
            else Some (Map.empty, line0)) of
        None \<Rightarrow> log_system ''PARSE_ERROR'' ''UNKNOWN'' ''ERROR'' self
      | Some (tags, line) \<Rightarrow>
          (case split1 line ''PRIVMSG'' of
             [p0, p1] \<Rightarrow>
               let header = strip p0; body = strip p1 in
               if \<not> contains body '':'' then self
               else
                 (case split1 body '':'' of
                    [chan_part, msg_part] \<Rightarrow>
                      let chan = lower (lstrip (strip chan_part) ''#'');
                          msg = strip msg_part;
                          user = lower (raw_user_of header);
                          self1 = self\<lparr>message_count := message_count self + 1\<rparr>;
                          self2 = log_chat chan user ''CHAT'' msg self1;
                          self3 = gui_put (Tuple [Str chan, Str ''CHAT'', Str (user @ '': '' @ msg)]) self2;
                          self4 = log_system ''USER_METADATA'' chan ''INFO'' self3
                      in track_user chan user self4
                  | _ \<Rightarrow> log_system ''PARSE_ERROR'' ''UNKNOWN'' ''ERROR'' self)
           | _ \<Rightarrow> self))"

text \<open>\<^verbatim>\<open>IRCShard.parse_notice(line)\<close>\<close>

definition parse_notice :: "IRCShard \<Rightarrow> string \<Rightarrow> IRCShard" where
  "parse_notice self line =
     (case split1 line ''NOTICE'' of
        [p0, p1] \<Rightarrow>
          let body = strip p1 in
          if contains body '':'' then
            (case split1 body '':'' of
               [chan_part, msg_part] \<Rightarrow>
                 let chan = strip (lstrip (strip chan_part) ''#'');
                     msg = strip msg_part
                 in log_system ''IRC_NOTICE'' chan ''INFO''
                      (gui_put (Tuple [Str chan, Str ''SYSTEM'', Str (''[NOTICE] '' @ msg)]) self)
             | _ \<Rightarrow> log_system ''NOTICE_PARSE_ERROR'' ''UNKNOWN'' ''ERROR'' self)
          else self
      | _ \<Rightarrow> self)"

text \<open>\<^verbatim>\<open>IRCShard.parse_presence(line)\<close>; its handler is a bare \<^verbatim>\<open>except: pass\<close>.\<close>

definition parse_presence :: "IRCShard \<Rightarrow> string \<Rightarrow> IRCShard" where
  "parse_presence self line =
     (if contains line ''JOIN'' then
        (case split1 line ''JOIN'' of
           [p0, p1] \<Rightarrow>
             let user = lower (raw_user_of p0);
                 chan = lower (lstrip (strip p1) ''#'')
             in track_user chan user (log_system ''USER_JOINED'' chan ''INFO'' self)
         | _ \<Rightarrow> self)
      else if contains line ''PART'' then
        (case split1 line ''PART'' of
           [p0, p1] \<Rightarrow>
             let user = lower (raw_user_of p0);
                 chan = lower (lstrip (strip p1) ''#'');
                 self1 = log_system ''USER_PARTED'' chan ''INFO'' self
             in (case channel_users self1 chan of
                   None \<Rightarrow> self1
                 | Some users \<Rightarrow> self1\<lparr>channel_users := (channel_users self1)(chan \<mapsto> users - {user})\<rparr>)
         | _ \<Rightarrow> self)
      else self)"

text \<open>The dispatch of one complete line in \<^verbatim>\<open>run\<close>; \<open>None\<close> when the pong cannot be sent.\<close>

definition dispatch_line :: "IRCShard \<Rightarrow> string \<Rightarrow> IRCShard option" where
  "dispatch_line self line =
     (if line = [] then Some self
      else if startswith line ''PING'' then sock_send self (''PONG :tmi.twitch.tv'' @ CRLF)
      else if contains line ''PRIVMSG'' then Some (parse_privmsg self line)
      else if contains line ''NOTICE'' then Some (parse_notice self line)
      else if contains line ''JOIN'' \<or> contains line ''PART'' then Some (parse_presence self line)
      else Some self)"

text \<open>\<^verbatim>\<open>for line in lines\<close>: \<open>Inl\<close> is the state in which an exception leaves the loop.\<close>

fun process_lines :: "IRCShard \<Rightarrow> string list \<Rightarrow> IRCShard + IRCShard" where
  "process_lines self [] = Inr self"
| "process_lines self (line # rest) =
     (case dispatch_line self line of
        None \<Rightarrow> Inl self
      | Some self1 \<Rightarrow> process_lines self1 rest)"

datatype recv_result = RecvTimeout | RecvData string | RecvError

datatype flow = Continue | Break

text \<open>The block INCOMING MESSAGES of the connected loop, for one result of \<^verbatim>\<open>recv\<close>.\<close>

definition incoming :: "IRCShard \<Rightarrow> recv_result \<Rightarrow> flow \<times> IRCShard" where
  "incoming self r =
     (case r of
        RecvTimeout \<Rightarrow> (Continue, self)
      | RecvError \<Rightarrow> (Break, log_system ''CONNECTION_ERROR'' ''ALL'' ''ERROR'' self)
      | RecvData d \<Rightarrow>
          if d = [] then (Break, self)
          else
            let lines = py_split (buffer self @ d) CRLF;
                self1 = self\<lparr>buffer := last lines\<rparr>
            in (case process_lines self1 (butlast lines) of
                  Inl self2 \<Rightarrow> (Break, log_system ''CONNECTION_ERROR'' ''ALL'' ''ERROR'' self2)
                | Inr self2 \<Rightarrow> (Continue, self2)))"

text \<open>
  \<^verbatim>\<open>while not self.limiter.allow(): time.sleep(0.05)\<close>, the successive calls reading the
  clock values given: the limiter after the first success and the number of sleeps, or
  \<open>None\<close> while no reading is accepted.
\<close>

fun wait_allow :: "TwitchLimiter \<Rightarrow> real list \<Rightarrow> (TwitchLimiter \<times> nat) option" where
  "wait_allow lm [] = None"
| "wait_allow lm (t # ts) =
     (case allow lm t of
        (True, lm1) \<Rightarrow> Some (lm1, 0)
      | (False, lm1) \<Rightarrow> map_option (\<lambda>(lm2, n). (lm2, Suc n)) (wait_allow lm1 ts))"

text \<open>
  The block OUTGOING MESSAGES of the connected loop. \<open>clock\<close> are the readings of the
  limiter's calls, \<open>sent_time\<close> the reading stored as \<^verbatim>\<open>last_time\<close>. \<open>None\<close>: the limiter
  has not yet allowed the send; \<open>Inl\<close>: the send raised, which leaves the connected loop.
\<close>

definition outgoing :: "IRCShard \<Rightarrow> real list \<Rightarrow> real \<Rightarrow> (IRCShard + IRCShard) option" where
  "outgoing self clock sent_time =
     (case send_queue (ctx self) of
        [] \<Rightarrow> Some (Inr self)
      | (target_chan, msg) # rest \<Rightarrow>
          let self1 = self\<lparr>ctx := (ctx self)\<lparr>send_queue := rest\<rparr>\<rparr> in
          (case wait_allow (limiter self1) clock of
             None \<Rightarrow> None
           | Some (lm, n) \<Rightarrow>
               let self2 = self1\<lparr>limiter := lm, naps := naps self1 + n\<rparr> in
               (case sock_send self2 (''PRIVMSG #'' @ target_chan @ '' :'' @ msg @ CRLF) of
                  None \<Rightarrow> Some (Inl self2)
                | Some self3 \<Rightarrow>
                    let self4 = self3\<lparr>ctx := (ctx self3)\<lparr>bot_state :=
                                  (bot_state (ctx self3))(target_chan \<mapsto> BLast msg sent_time)\<rparr>\<rparr>;
                        self5 = log_chat target_chan (username self4) ''SELF'' msg self4
                    in Some (Inr (gui_put (Tuple [Str target_chan, Str ''SELF'', Str (''You: '' @ msg)])
                                    self5)))))"

text \<open>The check of the control queue that opens every iteration: \<open>True\<close> means break.\<close>

definition check_control :: "IRCShard \<Rightarrow> bool \<times> IRCShard" where
  "check_control self =
     (case control_queue (ctx self) of
        [] \<Rightarrow> (False, self)
      | c # cs \<Rightarrow>
          let self1 = self\<lparr>ctx := (ctx self)\<lparr>control_queue := cs\<rparr>\<rparr> in
          if c = ''SHUTDOWN'' then (True, self1\<lparr>running := False\<rparr>) else (False, self1))"

text \<open>
  What the environment supplies to one iteration of the connected loop: whether the
  connection is still up (a send on a connection that has dropped raises), the clock
  readings of the limiter's calls, the clock stored as \<^verbatim>\<open>last_time\<close>, and the result of
  \<^verbatim>\<open>recv\<close>.
\<close>

record iter_env =
  env_link_up :: bool
  env_clock :: "real list"
  env_sent_time :: real
  env_recv :: recv_result

text \<open>The state of the connection as the environment leaves it.\<close>

definition link_status :: "bool \<Rightarrow> IRCShard \<Rightarrow> IRCShard" where
  "link_status up self = self\<lparr>sock := map_option (\<lambda>sk. sk\<lparr>alive := alive sk \<and> up\<rparr>) (sock self)\<rparr>"

datatype loop_exit = Broke | Raised

text \<open>
  The inner \<^verbatim>\<open>while self.running\<close> of \<^verbatim>\<open>run\<close>, one environment record per iteration.
  \<open>None\<close>: the loop is still running when the records are used up, or waits for the limiter.
\<close>

fun connected_loop :: "IRCShard \<Rightarrow> iter_env list \<Rightarrow> (loop_exit \<times> IRCShard) option" where
  "connected_loop self [] = (if running self then None else Some (Broke, self))"
| "connected_loop self (e # es) =
     (if \<not> running self then Some (Broke, self)
      else
        (case check_control (link_status (env_link_up e) self) of
           (True, self1) \<Rightarrow> Some (Broke, self1)
         | (False, self1) \<Rightarrow>
             (case outgoing self1 (env_clock e) (env_sent_time e) of
                None \<Rightarrow> None
              | Some (Inl self2) \<Rightarrow> Some (Raised, self2)
              | Some (Inr self2) \<Rightarrow>
                  (case incoming self2 (env_recv e) of
                     (Break, self3) \<Rightarrow> Some (Broke, self3)
                   | (Continue, self3) \<Rightarrow> connected_loop self3 es))))"

text \<open>The handler of the outer \<^verbatim>\<open>try\<close>: log, sleep for the current delay, double it up to 60.\<close>

definition backoff :: "IRCShard \<Rightarrow> IRCShard" where
  "backoff self =
     (log_system ''RECONNECT_FAILED'' ''ALL'' ''WARNING'' self)
       \<lparr>slept := slept self @ [real (reconnect_delay self)],
        reconnect_delay := min (reconnect_delay self * 2) 60\<rparr>"

text \<open>What the environment supplies to one pass of the outer loop.\<close>

record session_env =
  env_reachable :: bool
  env_iters :: "iter_env list"

text \<open>One pass of the body of the outer \<^verbatim>\<open>while self.running\<close>.\<close>

definition run_once :: "IRCShard \<Rightarrow> session_env \<Rightarrow> IRCShard option" where
  "run_once self e =
     (case connect self (env_reachable e) of
        Inl self1 \<Rightarrow> Some (backoff self1)
      | Inr self1 \<Rightarrow>
          (case connected_loop (self1\<lparr>reconnect_delay := 1\<rparr>) (env_iters e) of
             None \<Rightarrow> None
           | Some (Raised, self2) \<Rightarrow> Some (backoff self2)
           | Some (Broke, self2) \<Rightarrow> Some self2))"

text \<open>The outer loop over the passes given: the state when they are used up or the loop ends.\<close>

fun run_loop :: "IRCShard \<Rightarrow> session_env list \<Rightarrow> IRCShard option" where
  "run_loop self [] = Some self"
| "run_loop self (e # es) =
     (if \<not> running self then Some self
      else (case run_once self e of None \<Rightarrow> None | Some self1 \<Rightarrow> run_loop self1 es))"

text \<open>\<^verbatim>\<open>IRCShard.run()\<close>: it returns, after \<^verbatim>\<open>cleanup\<close> at clock \<open>now\<close>, once the loop has ended.\<close>

definition run :: "IRCShard \<Rightarrow> session_env list \<Rightarrow> real \<Rightarrow> IRCShard option" where
  "run self envs now =
     (case run_loop self envs of
        None \<Rightarrow> None
      | Some self1 \<Rightarrow> if running self1 then None else Some (cleanup self1 now))"

text \<open>\<^verbatim>\<open>RuntimeContext.__init__\<close>: empty queues, empty shared state.\<close>

definition RuntimeContext_init :: runtime_context where
  "RuntimeContext_init = \<lparr>gui_queue = [], send_queue = [], control_queue = [], bot_state = Map.empty,
     active_channels = {}, system_log = [], chat_log = [], files = []\<rparr>"

text \<open>The data sent so far on the shard's socket.\<close>

definition sent_data :: "IRCShard \<Rightarrow> string list" where
  "sent_data self = (case sock self of None \<Rightarrow> [] | Some sk \<Rightarrow> sent sk)"

section \<open>twitch\_monitor\_web.py: rebuild\_shards\<close>

definition MAX_CHANNELS_PER_CONN :: nat where "MAX_CHANNELS_PER_CONN = 10"

text \<open>\<^verbatim>\<open>range(i, stop, step)\<close> for a positive step (Python raises on step 0; the step here
  is the constant above).\<close>

function range_from :: "nat \<Rightarrow> nat \<Rightarrow> nat \<Rightarrow> nat list" where
  "range_from i stop step =
     (if step = 0 \<or> stop \<le> i then [] else i # range_from (i + step) stop step)"
  by pat_completeness auto
termination
  by (relation "measure (\<lambda>(i, stop, step). stop - i)") auto

text \<open>\<^verbatim>\<open>IRCShard.stop()\<close>\<close>

definition stop :: "IRCShard \<Rightarrow> IRCShard" where
  "stop self = self\<lparr>running := False,
                   sock := map_option (\<lambda>sk. sk\<lparr>alive := False\<rparr>) (sock self)\<rparr>"

text \<open>
  \<^verbatim>\<open>rebuild_shards()\<close>: the old shards, stopped, and the new list \<^verbatim>\<open>shards\<close>. The
  threads of the new shards are started by the caller's runtime; \<open>dd\<close> and \<open>t0\<close> are the
  data directory and the clock handed to the constructor.
\<close>

definition rebuild_shards ::
  "IRCShard list \<Rightarrow> runtime_context \<Rightarrow> string option \<Rightarrow> real \<Rightarrow> IRCShard list \<times> IRCShard list" where
  "rebuild_shards shards c dd t0 =
     (let channel_list = sorted_list_of_set (active_channels c) in
      (map stop shards,
       concat (map (\<lambda>i. let shard_channels = take MAX_CHANNELS_PER_CONN (drop i channel_list) in
                         if shard_channels = [] then []
                         else [IRCShard_init shard_channels
                                 (''shard_'' @ str_nat (i div MAX_CHANNELS_PER_CONN)) c dd t0])
                 (range_from 0 (length channel_list) MAX_CHANNELS_PER_CONN))))"

section \<open>audio.py: the capture loop of audio\_worker\<close>

definition CHUNK_DURATION :: nat where "CHUNK_DURATION = 5"
definition SAMPLE_RATE :: nat where "SAMPLE_RATE = 16000"

text \<open>A 32-bit float sample, kept as its four bytes in the order read.\<close>

datatype float32 = Float32 char char char char

text \<open>\<^verbatim>\<open>np.frombuffer(raw, dtype=np.float32)\<close>: \<open>None\<close> is the \<^verbatim>\<open>ValueError\<close> raised when
  the buffer size is not a multiple of the element size.\<close>

fun frombuffer :: "char list \<Rightarrow> float32 list option" where
  "frombuffer [] = Some []"
| "frombuffer (a # b # c # d # rest) = map_option ((#) (Float32 a b c d)) (frombuffer rest)"
| "frombuffer bs = None"

record audio_packet =
  pk_channel :: string
  pk_audio_data :: "float32 list"
  pk_chunk_start :: nat
  pk_chunk_end :: nat

text \<open>What the capture loop reads and writes: the two queues it was given, the chunk
  counter and whether the ffmpeg process has been terminated by the worker.\<close>

record capture_state =
  audio_queue :: "audio_packet list"
  worker_control :: "string list"
  idx :: nat
  process_terminated :: bool

datatype capture_flow = NextChunk | StreamEnded | ShutdownSeen | Crashed

text \<open>\<^verbatim>\<open>if control_queue.get_nowait() == "SHUTDOWN"\<close>, with \<^verbatim>\<open>Empty\<close> passed over.\<close>

definition poll_shutdown :: "capture_state \<Rightarrow> bool \<times> capture_state" where
  "poll_shutdown st =
     (case worker_control st of
        [] \<Rightarrow> (False, st)
      | c # cs \<Rightarrow> (c = ''SHUTDOWN'', st\<lparr>worker_control := cs\<rparr>))"

text \<open>
  One iteration of the inner \<^verbatim>\<open>while True\<close> of \<^verbatim>\<open>audio_worker\<close> for the bytes \<open>raw\<close>
  that \<^verbatim>\<open>process.stdout.read(chunk_size)\<close> returns. \<open>Crashed\<close> is an exception that leaves
  the loop for the handler of the outer \<^verbatim>\<open>try\<close>.
\<close>

definition capture_step :: "string \<Rightarrow> capture_state \<Rightarrow> char list \<Rightarrow> capture_flow \<times> capture_state" where
  "capture_step channel st raw =
     (case poll_shutdown st of
        (True, st1) \<Rightarrow> (ShutdownSeen, st1\<lparr>process_terminated := True\<rparr>)
      | (False, st1) \<Rightarrow>
          if raw = [] then (StreamEnded, st1)
          else if length (audio_queue st1) > 50 then (NextChunk, st1)
          else
            (case frombuffer raw of
               None \<Rightarrow> (Crashed, st1)
             | Some samples \<Rightarrow>
                 (NextChunk,
                  st1\<lparr>audio_queue := audio_queue st1 @
                         [\<lparr>pk_channel = channel, pk_audio_data = samples,
                           pk_chunk_start = idx st1 * CHUNK_DURATION,
                           pk_chunk_end = (idx st1 + 1) * CHUNK_DURATION\<rparr>],
                       idx := idx st1 + 1\<rparr>)))"

section \<open>web/queue\_bridge.py: QueueBridge\<close>

text \<open>An event given to \<^verbatim>\<open>socketio.emit\<close> without a recipient, which Flask-SocketIO sends
  to every connected client: its name and its payload dictionary.\<close>

type_synonym emitted = "string \<times> (string \<times> pyval) list"

datatype py_error = IndexError | TypeError | AttributeError

text \<open>\<^verbatim>\<open>d.get(key, default)\<close> on a dictionary kept as an association list.\<close>

definition dict_get :: "(string \<times> pyval) list \<Rightarrow> string \<Rightarrow> pyval \<Rightarrow> pyval" where
  "dict_get d key dflt = (case map_of d key of None \<Rightarrow> dflt | Some v \<Rightarrow> v)"

text \<open>\<^verbatim>\<open>tup[i]\<close>\<close>

definition item_at :: "pyval list \<Rightarrow> nat \<Rightarrow> py_error + pyval" where
  "item_at xs i = (if i < length xs then Inr (xs ! i) else Inl IndexError)"

text \<open>Python truthiness of a value.\<close>

fun truthy :: "pyval \<Rightarrow> bool" where
  "truthy (Str s) = (s \<noteq> [])"
| "truthy (Num n) = (n \<noteq> 0)"
| "truthy (Float r) = (r \<noteq> 0)"
| "truthy (Bytes b) = (b \<noteq> [])"
| "truthy (B64 b) = True"
| "truthy NoneVal = False"
| "truthy (Dict d) = (d \<noteq> [])"
| "truthy (Tuple xs) = (xs \<noteq> [])"

text \<open>
  \<^verbatim>\<open>QueueBridge._handle_metadata(channel, meta)\<close>. \<open>B64 b\<close> stands for the text
  \<^verbatim>\<open>base64.b64encode(b).decode('utf-8')\<close>; encoding anything but bytes raises inside the
  \<^verbatim>\<open>try\<close> and leaves the thumbnail \<^verbatim>\<open>None\<close>.
\<close>

definition handle_metadata :: "pyval \<Rightarrow> pyval \<Rightarrow> py_error + emitted list" where
  "handle_metadata channel meta =
     (case meta of
        Dict d \<Rightarrow>
          let thumb_bytes = dict_get d ''thumb_bytes'' NoneVal;
              thumb_b64 = (if truthy thumb_bytes
                           then (case thumb_bytes of Bytes b \<Rightarrow> B64 b | _ \<Rightarrow> NoneVal)
                           else NoneVal)
          in Inr [(''channel_meta'',
                   [(''channel'', channel),
                    (''game'', dict_get d ''game'' (Str ''Unknown'')),
                    (''viewers'', dict_get d ''viewers'' (Num 0)),
                    (''thumbnail'', thumb_b64)])]
      | _ \<Rightarrow> Inl AttributeError)"

text \<open>\<^verbatim>\<open>text[:50]\<close> in the log line of the standard branch: values that cannot be sliced
  raise \<^verbatim>\<open>TypeError\<close>.\<close>

fun sliceable :: "pyval \<Rightarrow> bool" where
  "sliceable (Str s) = True"
| "sliceable (Bytes b) = True"
| "sliceable (B64 b) = True"
| "sliceable (Tuple xs) = True"
| "sliceable v = False"

text \<open>
  \<^verbatim>\<open>QueueBridge._dispatch(item)\<close>: the events emitted, or the exception that the polling
  loop catches and prints. \<open>timestamp\<close> is \<^verbatim>\<open>datetime.now().strftime("%H:%M:%S")\<close>. In the
  prompt branch the channel of a non-dictionary payload is \<^verbatim>\<open>str(stream_info)\<close>, kept
  here as the payload itself.
\<close>

definition QueueBridge_dispatch :: "string \<Rightarrow> pyval \<Rightarrow> py_error + emitted list" where
  "QueueBridge_dispatch timestamp item =
     (case item of
        Tuple xs \<Rightarrow>
          (case item_at xs 0 of
             Inl e \<Rightarrow> Inl e
           | Inr x0 \<Rightarrow>
               if x0 = Str ''GUI_UPDATE_META'' then
                 (case item_at xs 1 of
                    Inl e \<Rightarrow> Inl e
                  | Inr x1 \<Rightarrow> (case item_at xs 2 of Inl e \<Rightarrow> Inl e | Inr x2 \<Rightarrow> handle_metadata x1 x2))
               else if x0 = Str ''ONLINE_PROMPT'' then
                 (case item_at xs 2 of
                    Inl e \<Rightarrow> Inl e
                  | Inr stream_info \<Rightarrow>
                      (case stream_info of
                         Dict d \<Rightarrow>
                           Inr [(''stream_online'',
                                 [(''channel'', dict_get d ''user'' (Str ''Unknown'')),
                                  (''info'', stream_info)])]
                       | _ \<Rightarrow>
                           Inr [(''stream_online'',
                                 [(''channel'', stream_info),
                                  (''info'', Dict [(''user'', stream_info)])])]))
               else if x0 = Str ''GUI_JOIN_NOW'' then
                 (case item_at xs 2 of
                    Inl e \<Rightarrow> Inl e
                  | Inr channel \<Rightarrow> Inr [(''channel_joined'', [(''channel'', channel)])])
               else
                 (case xs of
                    [channel, tag, text] \<Rightarrow>
                      if channel = Str ''SYSTEM'' \<or> channel = Str ''EXPERIMENT_DATA'' then Inr []
                      else if \<not> sliceable text then Inl TypeError
                      else Inr [(''chat_message'',
                                 [(''channel'', channel), (''tag'', tag), (''text'', text),
                                  (''timestamp'', Str timestamp)])]
                  | _ \<Rightarrow> Inr []))
      | _ \<Rightarrow> Inr [])"

section \<open>web/socket\_events.py\<close>

text \<open>The handler functions that the module defines.\<close>

datatype handler =
    handle_connect
  | handle_disconnect
  | handle_send_chat
  | handle_join_channel
  | handle_skip_channel
  | handle_get_channels
  | handle_ping

text \<open>A \<^verbatim>\<open>threading.Timer\<close> that was started: waiting for its deadline, cancelled, or run.\<close>

datatype timer = Pending real | Cancelled | Fired

text \<open>
  The web process as the socket handlers see it: the handlers registered on the SocketIO
  instance, the module globals \<^verbatim>\<open>_connected_clients\<close> and \<^verbatim>\<open>_shutdown_timer\<close> (a reference
  into the timers created so far), whether \<^verbatim>\<open>os._exit\<close> has run, the events emitted to
  single clients (recipient, name, payload), and the runtime context.
\<close>

record web_proc =
  handlers :: "string \<rightharpoonup> handler"
  connected_clients :: "string set"
  shutdown_timer :: "nat option"
  timers :: "timer list"
  exited :: bool
  emits :: "(string \<times> string \<times> (string \<times> pyval) list) list"
  wctx :: runtime_context

text \<open>The statements of a function body that matter here: a decorated handler definition
  \<^verbatim>\<open>@socketio.on(name) def h\<close>, a \<^verbatim>\<open>print\<close>, and \<^verbatim>\<open>os._exit(0)\<close>.\<close>

datatype stmt = On string handler | Print | OsExit

text \<open>Statements run in order; nothing runs once the process has exited.\<close>

fun exec :: "stmt list \<Rightarrow> web_proc \<Rightarrow> web_proc" where
  "exec [] p = p"
| "exec (st # rest) p =
     (if exited p then p
      else exec rest
        (case st of
           On name h \<Rightarrow> p\<lparr>handlers := (handlers p)(name \<mapsto> h)\<rparr>
         | Print \<Rightarrow> p
         | OsExit \<Rightarrow> p\<lparr>exited := True\<rparr>))"

text \<open>The body of \<^verbatim>\<open>register(socketio, context)\<close>.\<close>

definition register_body :: "stmt list" where
  "register_body = [On ''connect'' handle_connect, On ''disconnect'' handle_disconnect]"

definition register :: "web_proc \<Rightarrow> web_proc" where
  "register p = exec register_body p"

text \<open>The body of \<^verbatim>\<open>_trigger_shutdown()\<close>, with the handler definitions that follow
  \<^verbatim>\<open>os._exit(0)\<close> in the source.\<close>

definition trigger_shutdown_body :: "stmt list" where
  "trigger_shutdown_body =
     [Print, OsExit,
      On ''send_chat'' handle_send_chat,
      On ''join_channel'' handle_join_channel,
      On ''skip_channel'' handle_skip_channel,
      On ''get_active_channels'' handle_get_channels,
      On ''ping'' handle_ping]"

definition trigger_shutdown :: "web_proc \<Rightarrow> web_proc" where
  "trigger_shutdown p = exec trigger_shutdown_body p"

text \<open>\<^verbatim>\<open>emit(name, payload)\<close> inside a handler: to the client of the request.\<close>

definition emit_to :: "string \<Rightarrow> string \<Rightarrow> (string \<times> pyval) list \<Rightarrow> web_proc \<Rightarrow> web_proc" where
  "emit_to sid name payload p = p\<lparr>emits := emits p @ [(sid, name, payload)]\<rparr>"

text \<open>The payload of \<^verbatim>\<open>active_channels\<close>: the active set as a list (Python leaves the
  order of \<^verbatim>\<open>list(set)\<close> open; the sorted order stands for it).\<close>

definition channels_payload :: "web_proc \<Rightarrow> (string \<times> pyval) list" where
  "channels_payload p =
     [(''channels'', Tuple (map Str (sorted_list_of_set (active_channels (wctx p)))))]"

text \<open>\<^verbatim>\<open>Timer.cancel()\<close>: a timer that has not run yet never will.\<close>

definition cancel :: "nat \<Rightarrow> timer list \<Rightarrow> timer list" where
  "cancel tid ts = (if tid < length ts then
                      (case ts ! tid of Pending d \<Rightarrow> ts[tid := Cancelled] | _ \<Rightarrow> ts)
                    else ts)"

text \<open>The handler bodies; \<open>sid\<close> is \<^verbatim>\<open>request.sid\<close>, \<open>data\<close> the argument of the event and
  \<open>now\<close> the clock.\<close>

definition do_connect :: "string \<Rightarrow> web_proc \<Rightarrow> web_proc" where
  "do_connect sid p =
     (let p1 = (case shutdown_timer p of
                  None \<Rightarrow> p
                | Some tid \<Rightarrow> p\<lparr>timers := cancel tid (timers p), shutdown_timer := None\<rparr>);
          p2 = p1\<lparr>connected_clients := insert sid (connected_clients p1)\<rparr>;
          p3 = emit_to sid ''connected'' [(''status'', Str ''ok''), (''sid'', Str sid)] p2
      in emit_to sid ''active_channels'' (channels_payload p3) p3)"

definition do_disconnect :: "string \<Rightarrow> real \<Rightarrow> web_proc \<Rightarrow> web_proc" where
  "do_disconnect sid now p =
     (let p1 = p\<lparr>connected_clients := connected_clients p - {sid}\<rparr> in
      if connected_clients p1 = {}
      then p1\<lparr>timers := timers p1 @ [Pending (now + 3)],
              shutdown_timer := Some (length (timers p1))\<rparr>
      else p1)"

text \<open>In \<^verbatim>\<open>handle_send_chat\<close> the send queue takes pairs of strings; a request whose
  channel or message is not a string puts nothing there in this model.\<close>

definition do_send_chat :: "string \<Rightarrow> pyval \<Rightarrow> web_proc \<Rightarrow> web_proc" where
  "do_send_chat sid data p =
     (case data of
        Dict d \<Rightarrow>
          (case (dict_get d ''channel'' NoneVal, dict_get d ''message'' (Str [])) of
             (Str channel, Str m) \<Rightarrow>
               let message = strip m in
               if channel \<noteq> [] \<and> message \<noteq> [] then
                 emit_to sid ''chat_sent'' [(''channel'', Str channel), (''message'', Str message)]
                   (p\<lparr>wctx := (wctx p)\<lparr>send_queue := send_queue (wctx p) @ [(channel, message)]\<rparr>\<rparr>)
               else p
           | _ \<Rightarrow> p)
      | _ \<Rightarrow> p)"

definition do_join_channel :: "string \<Rightarrow> pyval \<Rightarrow> web_proc \<Rightarrow> web_proc" where
  "do_join_channel sid data p =
     (case data of
        Dict d \<Rightarrow>
          let channel = dict_get d ''channel'' NoneVal in
          if truthy channel then
            emit_to sid ''join_accepted'' [(''channel'', channel)]
              (p\<lparr>wctx := (wctx p)\<lparr>gui_queue := gui_queue (wctx p) @
                    [Tuple [Str ''GUI_JOIN_NOW'', Str ''SYSTEM'', channel]]\<rparr>\<rparr>)
          else p
      | _ \<Rightarrow> p)"

definition do_skip_channel :: "string \<Rightarrow> pyval \<Rightarrow> web_proc \<Rightarrow> web_proc" where
  "do_skip_channel sid data p =
     (case data of
        Dict d \<Rightarrow> emit_to sid ''channel_skipped'' [(''channel'', dict_get d ''channel'' NoneVal)] p
      | _ \<Rightarrow> p)"

text \<open>The handler that a request runs. The pong of \<^verbatim>\<open>handle_ping\<close> carries the clock.\<close>

definition run_handler :: "handler \<Rightarrow> string \<Rightarrow> pyval \<Rightarrow> real \<Rightarrow> web_proc \<Rightarrow> web_proc" where
  "run_handler h sid data now p =
     (case h of
        handle_connect \<Rightarrow> do_connect sid p
      | handle_disconnect \<Rightarrow> do_disconnect sid now p
      | handle_send_chat \<Rightarrow> do_send_chat sid data p
      | handle_join_channel \<Rightarrow> do_join_channel sid data p
      | handle_skip_channel \<Rightarrow> do_skip_channel sid data p
      | handle_get_channels \<Rightarrow> emit_to sid ''active_channels'' (channels_payload p) p
      | handle_ping \<Rightarrow> emit_to sid ''pong'' [(''time'', Float now)] p)"

text \<open>The passing of time up to \<open>now\<close>: a pending timer whose deadline has come runs
  \<^verbatim>\<open>_trigger_shutdown\<close>.\<close>

definition due :: "real \<Rightarrow> timer \<Rightarrow> bool" where
  "due now t = (case t of Pending d \<Rightarrow> d \<le> now | _ \<Rightarrow> False)"

definition tick :: "real \<Rightarrow> web_proc \<Rightarrow> web_proc" where
  "tick now p =
     (if \<not> exited p \<and> list_ex (due now) (timers p)
      then trigger_shutdown (p\<lparr>timers := map (\<lambda>t. if due now t then Fired else t) (timers p)\<rparr>)
      else p)"

text \<open>A WebSocket event \<open>name\<close> from client \<open>sid\<close> with argument \<open>data\<close> at clock \<open>now\<close>: the
  timers that are due run first; a process that has exited handles nothing; an event with
  no registered handler is ignored.\<close>

definition ws_request :: "real \<Rightarrow> string \<Rightarrow> string \<Rightarrow> pyval \<Rightarrow> web_proc \<Rightarrow> web_proc" where
  "ws_request now name sid data p =
     (let p1 = tick now p in
      if exited p1 then p1
      else (case handlers p1 name of
              None \<Rightarrow> p1
            | Some h \<Rightarrow> run_handler h sid data now p1))"

text \<open>A sequence of WebSocket events, each (clock, name, client, argument).\<close>

fun ws_requests :: "(real \<times> string \<times> string \<times> pyval) list \<Rightarrow> web_proc \<Rightarrow> web_proc" where
  "ws_requests [] p = p"
| "ws_requests ((now, name, sid, data) # rest) p = ws_requests rest (ws_request now name sid data p)"

text \<open>The process before \<^verbatim>\<open>register\<close> is called, with runtime context \<open>c\<close>.\<close>

definition web_proc_init :: "runtime_context \<Rightarrow> web_proc" where
  "web_proc_init c =
     \<lparr>handlers = Map.empty, connected_clients = {}, shutdown_timer = None, timers = [],
      exited = False, emits = [], wctx = c\<rparr>"

text \<open>A timer that has been started and has neither run nor been cancelled.\<close>

definition pending :: "timer \<Rightarrow> bool" where
  "pending t = (case t of Pending d \<Rightarrow> True | _ \<Rightarrow> False)"

text \<open>The invariant of the subscriber bookkeeping: a pending timer is the one that
  \<^verbatim>\<open>_shutdown_timer\<close> refers to, and it exists only while no client is connected.\<close>

definition timers_ok :: "web_proc \<Rightarrow> bool" where
  "timers_ok p \<longleftrightarrow>
     (\<forall>i < length (timers p). pending (timers p ! i) \<longrightarrow>
        shutdown_timer p = Some i \<and> connected_clients p = {})"

text \<open>A sequence of WebSocket events in which every \<^verbatim>\<open>disconnect\<close> comes from a client
  that is connected at that moment.\<close>

fun wf_requests :: "(real \<times> string \<times> string \<times> pyval) list \<Rightarrow> web_proc \<Rightarrow> bool" where
  "wf_requests [] p = True"
| "wf_requests ((now, name, sid, data) # rest) p =
     ((name = ''disconnect'' \<longrightarrow> sid \<in> connected_clients p) \<and>
      wf_requests rest (ws_request now name sid data p))"

text \<open>Only the two lifecycle handlers are registered, and the queues are as at the start.\<close>

definition lifecycle_only :: "runtime_context \<Rightarrow> web_proc \<Rightarrow> bool" where
  "lifecycle_only c p \<longleftrightarrow>
     handlers p = [''connect'' \<mapsto> handle_connect, ''disconnect'' \<mapsto> handle_disconnect] \<and>
     wctx p = c"

section \<open>Properties of the rate limiter\<close>

lemma evict_dropWhile: "evict w now es = dropWhile (\<lambda>e. now - e > w) es"
  by (induction es) auto

lemma allow_params:
  "allow s now = (r, s') \<Longrightarrow> limit s' = limit s \<and> window s' = window s \<and> min_delay s' = min_delay s"
  by (auto simp: allow_def Let_def split: if_splits)

lemma allow_blocked:
  "now - last_message s < min_delay s \<Longrightarrow> allow s now = (r, s') \<Longrightarrow>
     \<not> r \<and> events s' = events s \<and> last_message s' = last_message s"
  by (auto simp: allow_def Let_def)

lemma allow_accept:
  "\<not> now - last_message s < min_delay s \<Longrightarrow> int (length (evict (window s) now (events s))) < limit s \<Longrightarrow>
   allow s now = (r, s') \<Longrightarrow>
     r \<and> events s' = evict (window s) now (events s) @ [now] \<and> last_message s' = now"
  by (auto simp: allow_def Let_def)

lemma allow_full:
  "\<not> now - last_message s < min_delay s \<Longrightarrow> \<not> int (length (evict (window s) now (events s))) < limit s \<Longrightarrow>
   allow s now = (r, s') \<Longrightarrow>
     \<not> r \<and> events s' = evict (window s) now (events s) \<and> last_message s' = last_message s"
  by (auto simp: allow_def Let_def)

lemma evict_split: "\<exists>gone. es = gone @ evict w now es \<and> (\<forall>p\<in>set gone. p + w < now)"
proof (induction es)
  case Nil
  show ?case by simp
next
  case (Cons e es)
  show ?case
  proof (cases "now - e > w")
    case True
    from Cons obtain gone where g: "es = gone @ evict w now es" "\<forall>p\<in>set gone. p + w < now" by blast
    have "e # es = (e # gone) @ evict w now (e # es)" using g(1) True by simp
    moreover have "\<forall>p\<in>set (e # gone). p + w < now" using g(2) True by auto
    ultimately show ?thesis by blast
  next
    case False
    then have "e # es = [] @ evict w now (e # es)" by simp
    then show ?thesis by fastforce
  qed
qed

lemma evict_length: "length (evict w now es) \<le> length es"
  by (induction es) auto

lemma evict_shorter_hd:
  "length (evict w now es) < length es \<Longrightarrow> \<exists>e rest. es = e # rest \<and> e + w < now"
  by (cases es) (auto split: if_splits)

lemma in_window_append: "in_window w t (xs @ ys) = in_window w t xs @ in_window w t ys"
  by (simp add: in_window_def)

lemma in_window_length: "length (in_window w t xs) \<le> length xs"
  by (simp add: in_window_def)

lemma in_window_old: "\<forall>p\<in>set xs. p + w < now \<Longrightarrow> now \<le> t \<Longrightarrow> in_window w t xs = []"
  by (induction xs) (auto simp: in_window_def)

lemma lim_inv_step:
  assumes md: "0 \<le> min_delay s" and inv: "lim_inv s h" and al: "allow s now = (r, s')"
  shows "lim_inv s' (if r then h @ [now] else h)"
proof -
  note par = allow_params[OF al]
  from inv obtain pre where
    gap: "sorted_wrt (\<lambda>a b. a + min_delay s \<le> b) h" and
    le_last: "\<forall>a\<in>set h. a \<le> last_message s" and
    h: "h = pre @ events s" and
    pre: "\<forall>p\<in>set pre. p + window s < last_message s + min_delay s \<or> limit s \<le> int (length (events s))" and
    win: "\<forall>t. int (length (in_window (window s) t h)) \<le> limit s"
    unfolding lim_inv_def by blast
  show ?thesis
  proof (cases "now - last_message s < min_delay s")
    case True
    from allow_blocked[OF True al] have "\<not> r" "events s' = events s" "last_message s' = last_message s" by auto
    then show ?thesis using inv par unfolding lim_inv_def by simp
  next
    case nb: False
    let ?evs = "evict (window s) now (events s)"
    obtain gone where gone: "events s = gone @ ?evs" "\<forall>p\<in>set gone. p + window s < now"
      using evict_split by blast
    show ?thesis
    proof (cases "int (length ?evs) < limit s")
      case False
      from allow_full[OF nb False al] have r: "\<not> r" "events s' = ?evs" "last_message s' = last_message s" by auto
      have "h = (pre @ gone) @ events s'" using h gone(1) r(2) by simp
      moreover have "\<forall>p\<in>set (pre @ gone). p + window s' < last_message s' + min_delay s' \<or> limit s' \<le> int (length (events s'))"
        using False r(2) par by simp
      ultimately have "\<exists>pre'. h = pre' @ events s' \<and> (\<forall>p\<in>set pre'. p + window s' < last_message s' + min_delay s' \<or> limit s' \<le> int (length (events s')))"
        by blast
      then show ?thesis using gap le_last win r par unfolding lim_inv_def by simp
    next
      case acc: True
      from allow_accept[OF nb acc al] have r: "r" "events s' = ?evs @ [now]" "last_message s' = now" by auto
      have later: "\<forall>a\<in>set h. a + min_delay s \<le> now" using le_last nb by fastforce
      have old: "\<forall>p\<in>set (pre @ gone). p + window s < now"
      proof
        fix p assume "p \<in> set (pre @ gone)"
        then consider "p \<in> set gone" | "p \<in> set pre" by auto
        then show "p + window s < now"
        proof cases
          case 1 then show ?thesis using gone(2) by blast
        next
          case 2
          with pre consider "p + window s < last_message s + min_delay s" | "limit s \<le> int (length (events s))" by blast
          then show ?thesis
          proof cases
            case 1 then show ?thesis using nb by linarith
          next
            case 2
            with acc have "length ?evs < length (events s)" by linarith
            then obtain e rest where e: "events s = e # rest" "e + window s < now"
              using evict_shorter_hd by blast
            have "p + min_delay s \<le> e" using gap h e(1) \<open>p \<in> set pre\<close> by (auto simp: sorted_wrt_append)
            then show ?thesis using e(2) md by linarith
          qed
        qed
      qed
      have h': "h @ [now] = (pre @ gone) @ events s'" using h gone(1) r(2) by simp
      have g1: "sorted_wrt (\<lambda>a b. a + min_delay s' \<le> b) (h @ [now])"
        using gap later par by (simp add: sorted_wrt_append)
      have g2: "\<forall>a\<in>set (h @ [now]). a \<le> last_message s'"
        using later md r(3) by fastforce
      have g3: "\<forall>p\<in>set (pre @ gone). p + window s' < last_message s' + min_delay s' \<or> limit s' \<le> int (length (events s'))"
        using old md par r(3) by fastforce
      have g4: "\<forall>t. int (length (in_window (window s') t (h @ [now]))) \<le> limit s'"
      proof
        fix t
        show "int (length (in_window (window s') t (h @ [now]))) \<le> limit s'"
        proof (cases "now \<le> t")
          case False
          then have "in_window (window s) t (h @ [now]) = in_window (window s) t h"
            by (simp add: in_window_def)
          then show ?thesis using win par by simp
        next
          case True
          have "h @ [now] = (pre @ gone) @ (?evs @ [now])" using h' r(2) by simp
          then have "in_window (window s) t (h @ [now]) = in_window (window s) t (?evs @ [now])"
            using in_window_old[OF old True] by (simp add: in_window_append del: append_assoc)
          then have "length (in_window (window s) t (h @ [now])) \<le> length ?evs + 1"
            using in_window_length[of "window s" t "?evs @ [now]"] by simp
          then show ?thesis using acc par by simp
        qed
      qed
      show ?thesis using r(1) g1 g2 g3 g4 h' unfolding lim_inv_def by auto
    qed
  qed
qed

lemma successes_Cons: "successes (t # ts) (r # rs) = (if r then [t] else []) @ successes ts rs"
  by (simp add: successes_def)

lemma lim_inv_seq:
  "0 \<le> min_delay s \<Longrightarrow> lim_inv s h \<Longrightarrow> allow_seq s ts = (rs, s') \<Longrightarrow>
     lim_inv s' (h @ successes ts rs)"
proof (induction ts arbitrary: s h rs s')
  case Nil
  then show ?case by (simp add: successes_def)
next
  case (Cons t ts)
  obtain r s1 where a: "allow s t = (r, s1)" by (cases "allow s t")
  obtain rs1 s2 where b: "allow_seq s1 ts = (rs1, s2)" by (cases "allow_seq s1 ts")
  from Cons.prems(3) a b have eq: "rs = r # rs1" "s' = s2" by auto
  have i1: "lim_inv s1 (if r then h @ [t] else h)" by (rule lim_inv_step[OF Cons.prems(1,2) a])
  have md1: "0 \<le> min_delay s1" using allow_params[OF a] Cons.prems(1) by simp
  from Cons.IH[OF md1 i1 b] show ?case unfolding eq by (cases r) (simp_all add: successes_Cons)
qed

lemma lim_inv_init: "0 \<le> l \<Longrightarrow> lim_inv (TwitchLimiter_init l w d t0) []"
  by (simp add: lim_inv_def TwitchLimiter_init_def in_window_def)

lemma allow_seq_blocked:
  "last_message s = t \<Longrightarrow> 0 < min_delay s \<Longrightarrow>
     fst (allow_seq s (replicate n t)) = replicate n False \<and>
     min_delay_blocked (metrics (snd (allow_seq s (replicate n t)))) = min_delay_blocked (metrics s) + n \<and>
     rate_limited (metrics (snd (allow_seq s (replicate n t)))) = rate_limited (metrics s) \<and>
     allowed_messages (metrics (snd (allow_seq s (replicate n t)))) = allowed_messages (metrics s)"
proof (induction n arbitrary: s)
  case 0
  show ?case by simp
next
  case (Suc n)
  let ?s1 = "snd (allow s t)"
  have blocked: "t - last_message s < min_delay s" using Suc.prems by simp
  have a: "fst (allow s t) = False" using blocked by (simp add: allow_def Let_def)
  have s1: "last_message ?s1 = t" "0 < min_delay ?s1"
    "min_delay_blocked (metrics ?s1) = min_delay_blocked (metrics s) + 1"
    "rate_limited (metrics ?s1) = rate_limited (metrics s)"
    "allowed_messages (metrics ?s1) = allowed_messages (metrics s)"
    using blocked Suc.prems by (simp_all add: allow_def Let_def)
  from Suc.IH[OF s1(1,2)] show ?case
    using a s1(3,4,5) by (simp add: split_def)
qed

lemma allow_seq_params:
  "allow_seq s ts = (rs, s') \<Longrightarrow> limit s' = limit s \<and> window s' = window s \<and> min_delay s' = min_delay s"
proof (induction ts arbitrary: s rs s')
  case Nil
  then show ?case by simp
next
  case (Cons t ts)
  obtain r s1 where a: "allow s t = (r, s1)" by (cases "allow s t")
  obtain rs1 s2 where b: "allow_seq s1 ts = (rs1, s2)" by (cases "allow_seq s1 ts")
  from Cons.prems a b have "s' = s2" by simp
  then show ?case using Cons.IH[OF b] allow_params[OF a] by simp
qed

lemma allow_first:
  "d \<le> t \<Longrightarrow> 0 < l \<Longrightarrow> allow (TwitchLimiter_init l w d t0) t =
     (True, (TwitchLimiter_init l w d t0)\<lparr>events := [t], last_message := t,
        metrics := \<lparr>total_attempts = 1, allowed_messages = 1, rate_limited = 0,
                 min_delay_blocked = 0, avg_delay = 0\<rparr>\<rparr>)"
  by (simp add: allow_def TwitchLimiter_init_def Let_def)

lemma burst_25:
  assumes "MIN_MSG_DELAY \<le> t"
  shows "fst (allow_seq (TwitchLimiter_init MSG_LIMIT MSG_WINDOW MIN_MSG_DELAY t0) (replicate 25 t))
           = True # replicate 24 False \<and>
         min_delay_blocked (metrics (snd (allow_seq (TwitchLimiter_init MSG_LIMIT MSG_WINDOW MIN_MSG_DELAY t0) (replicate 25 t)))) = 24
        \<and> rate_limited (metrics (snd (allow_seq (TwitchLimiter_init MSG_LIMIT MSG_WINDOW MIN_MSG_DELAY t0) (replicate 25 t)))) = 0"
proof -
  let ?s0 = "TwitchLimiter_init MSG_LIMIT MSG_WINDOW MIN_MSG_DELAY t0"
  let ?s1 = "?s0\<lparr>events := [t], last_message := t,
        metrics := \<lparr>total_attempts = 1, allowed_messages = 1, rate_limited = 0,
                 min_delay_blocked = 0, avg_delay = 0\<rparr>\<rparr>"
  have a: "allow ?s0 t = (True, ?s1)"
    by (rule allow_first) (use assms in \<open>simp_all add: MSG_LIMIT_def\<close>)
  have b: "last_message ?s1 = t" "0 < min_delay ?s1"
    by (simp_all add: TwitchLimiter_init_def MIN_MSG_DELAY_def)
  have r: "replicate 25 t = t # replicate 24 t" by (simp add: numeral_eq_Suc)
  from allow_seq_blocked[OF b, of 24] show ?thesis
    unfolding r using a by (simp add: split_def)
qed

text \<open>
  Claim C1. For a limiter built by the constructor (limit \<open>l\<close>, window \<open>w\<close>, minimum
  delay \<open>d\<close>; the source's defaults are 20, 30 and 1.6) and any sequence of calls of
  \<^verbatim>\<open>allow()\<close>: every trailing window \<open>[t - w, t]\<close> holds at most \<open>l\<close> successful calls,
  and any two successful calls are at least \<open>d\<close> apart. One call proceeds in the order:
  reject when \<open>now - last_message < min_delay\<close>, otherwise drop the timestamps older than
  the window from the front of the deque, then accept exactly when fewer than \<open>limit\<close>
  remain, appending \<open>now\<close> and setting \<open>last_message\<close>. With the defaults, 25 calls at
  one instant give one success, the first, and 24 rejections counted by the minimum-delay
  check.
\<close>

theorem limiter_window_and_gap:
  assumes "0 \<le> l" and "0 \<le> d"
  shows "(\<forall>t. int (length (in_window w t
            (successes ts (fst (allow_seq (TwitchLimiter_init l w d t0) ts))))) \<le> l) \<and>
         sorted_wrt (\<lambda>a b. a + d \<le> b)
            (successes ts (fst (allow_seq (TwitchLimiter_init l w d t0) ts))) \<and>
         fst (allow self now) =
           (\<not> now - last_message self < min_delay self \<and>
             int (length (dropWhile (\<lambda>e. now - e > window self) (events self))) < limit self) \<and>
         events (snd (allow self now)) =
           (if now - last_message self < min_delay self then events self
            else if int (length (dropWhile (\<lambda>e. now - e > window self) (events self))) < limit self
              then dropWhile (\<lambda>e. now - e > window self) (events self) @ [now]
              else dropWhile (\<lambda>e. now - e > window self) (events self)) \<and>
         last_message (snd (allow self now)) = (if fst (allow self now) then now else last_message self) \<and>
         (MIN_MSG_DELAY \<le> u \<longrightarrow>
            fst (allow_seq (TwitchLimiter_init MSG_LIMIT MSG_WINDOW MIN_MSG_DELAY t0) (replicate 25 u))
              = True # replicate 24 False \<and>
            min_delay_blocked (metrics (snd (allow_seq
              (TwitchLimiter_init MSG_LIMIT MSG_WINDOW MIN_MSG_DELAY t0) (replicate 25 u)))) = 24)"
proof -
  let ?s0 = "TwitchLimiter_init l w d t0"
  obtain rs s' where run: "allow_seq ?s0 ts = (rs, s')" by (cases "allow_seq ?s0 ts")
  have md: "0 \<le> min_delay ?s0" using assms(2) by (simp add: TwitchLimiter_init_def)
  have "lim_inv s' ([] @ successes ts rs)"
    by (rule lim_inv_seq[OF md lim_inv_init[OF assms(1)] run])
  moreover have p: "limit s' = l" "window s' = w" "min_delay s' = d"
    using allow_seq_params[OF run] by (simp_all add: TwitchLimiter_init_def)
  ultimately have 1: "\<forall>t. int (length (in_window w t (successes ts rs))) \<le> l"
    and 2: "sorted_wrt (\<lambda>a b. a + d \<le> b) (successes ts rs)"
    unfolding lim_inv_def by simp_all
  have 3: "fst (allow self now) =
           (\<not> now - last_message self < min_delay self \<and>
             int (length (dropWhile (\<lambda>e. now - e > window self) (events self))) < limit self)"
    by (simp add: allow_def Let_def evict_dropWhile)
  have 4: "events (snd (allow self now)) =
           (if now - last_message self < min_delay self then events self
            else if int (length (dropWhile (\<lambda>e. now - e > window self) (events self))) < limit self
              then dropWhile (\<lambda>e. now - e > window self) (events self) @ [now]
              else dropWhile (\<lambda>e. now - e > window self) (events self))"
    by (simp add: allow_def Let_def evict_dropWhile)
  have 5: "last_message (snd (allow self now)) = (if fst (allow self now) then now else last_message self)"
    by (simp add: allow_def Let_def)
  show ?thesis using 1 2 3 4 5 burst_25[of u t0] run by simp
qed

theorem limiter_window_and_gap_witness:
  "(0::int) \<le> 20 \<and> (0::real) \<le> 8/5 \<and> MIN_MSG_DELAY \<le> 100 \<and>
   successes [2, 3, 4, 40] (fst (allow_seq (TwitchLimiter_init 20 30 (8/5) 0) [2, 3, 4, 40])) = [2, 4, 40] \<and>
   fst (allow_seq (TwitchLimiter_init MSG_LIMIT MSG_WINDOW MIN_MSG_DELAY 0) (replicate 25 100))
              = True # replicate 24 False"
  using limiter_window_and_gap[of 20 "8/5" 30 "[2, 3, 4, 40]" 0 "TwitchLimiter_init 20 30 (8/5) 0" 2 100]
  by (simp add: MIN_MSG_DELAY_def allow_def TwitchLimiter_init_def successes_def Let_def)

section \<open>Frame properties of the shard operations\<close>

text \<open>The fields that only the outer loop of \<^verbatim>\<open>run\<close> writes.\<close>

lemma gui_put_frame:
  "slept (gui_put x s) = slept s" "reconnect_delay (gui_put x s) = reconnect_delay s"
  "sock (gui_put x s) = sock s" "running (gui_put x s) = running s"
  by (simp_all add: gui_put_def)

lemma log_system_frame:
  "slept (log_system a b c s) = slept s" "reconnect_delay (log_system a b c s) = reconnect_delay s"
  "sock (log_system a b c s) = sock s" "running (log_system a b c s) = running s"
  by (simp_all add: log_system_def)

lemma log_chat_frame:
  "slept (log_chat a b c d s) = slept s" "reconnect_delay (log_chat a b c d s) = reconnect_delay s"
  "sock (log_chat a b c d s) = sock s" "running (log_chat a b c d s) = running s"
  by (simp_all add: log_chat_def)

lemma sock_send_frame:
  "sock_send s x = Some s' \<Longrightarrow> slept s' = slept s \<and> reconnect_delay s' = reconnect_delay s"
  by (auto simp: sock_send_def split: option.splits if_splits)

lemma track_user_frame:
  "slept (track_user c u s) = slept s" "reconnect_delay (track_user c u s) = reconnect_delay s"
  "sock (track_user c u s) = sock s" "running (track_user c u s) = running s"
  by (simp_all add: track_user_def log_system_frame split: option.splits)

lemmas small_frames = gui_put_frame log_system_frame log_chat_frame track_user_frame

lemma parse_privmsg_frame:
  "slept (parse_privmsg s l) = slept s \<and> reconnect_delay (parse_privmsg s l) = reconnect_delay s \<and>
   sock (parse_privmsg s l) = sock s \<and> running (parse_privmsg s l) = running s"
  by (simp add: parse_privmsg_def Let_def small_frames split: option.splits list.splits)

lemma parse_notice_frame:
  "slept (parse_notice s l) = slept s \<and> reconnect_delay (parse_notice s l) = reconnect_delay s \<and>
   sock (parse_notice s l) = sock s \<and> running (parse_notice s l) = running s"
  by (simp add: parse_notice_def Let_def small_frames split: option.splits list.splits)

lemma parse_presence_frame:
  "slept (parse_presence s l) = slept s \<and> reconnect_delay (parse_presence s l) = reconnect_delay s \<and>
   sock (parse_presence s l) = sock s \<and> running (parse_presence s l) = running s"
  by (simp add: parse_presence_def Let_def small_frames split: option.splits list.splits)

lemma dispatch_line_frame:
  "dispatch_line s l = Some s' \<Longrightarrow> slept s' = slept s \<and> reconnect_delay s' = reconnect_delay s"
  using sock_send_frame[of s _ s'] parse_privmsg_frame[of s l] parse_notice_frame[of s l]
    parse_presence_frame[of s l]
  by (auto simp: dispatch_line_def split: if_splits)

lemma process_lines_frame:
  "process_lines s ls = r \<Longrightarrow>
     slept (case r of Inl x \<Rightarrow> x | Inr x \<Rightarrow> x) = slept s \<and>
     reconnect_delay (case r of Inl x \<Rightarrow> x | Inr x \<Rightarrow> x) = reconnect_delay s"
proof (induction ls arbitrary: s)
  case Nil
  then show ?case by auto
next
  case (Cons l ls)
  show ?case
  proof (cases "dispatch_line s l")
    case None
    then show ?thesis using Cons.prems by auto
  next
    case (Some s1)
    then have "process_lines s1 ls = r" using Cons.prems by simp
    from Cons.IH[OF this] dispatch_line_frame[OF Some] show ?thesis by simp
  qed
qed

lemma incoming_frame:
  "incoming s r = (f, s') \<Longrightarrow> slept s' = slept s \<and> reconnect_delay s' = reconnect_delay s"
proof (cases r)
  case RecvTimeout
  assume "incoming s r = (f, s')"
  then show ?thesis using RecvTimeout by (simp add: incoming_def)
next
  case RecvError
  assume "incoming s r = (f, s')"
  then show ?thesis using RecvError by (auto simp: incoming_def log_system_frame)
next
  case (RecvData d)
  assume a: "incoming s r = (f, s')"
  let ?lines = "py_split (buffer s @ d) CRLF"
  let ?s1 = "s\<lparr>buffer := last ?lines\<rparr>"
  note fr = process_lines_frame[OF refl, of ?s1 "butlast ?lines"]
  show ?thesis
  proof (cases "d = []")
    case True
    then show ?thesis using a RecvData by (simp add: incoming_def)
  next
    case False
    then show ?thesis using a RecvData fr
      by (auto simp: incoming_def Let_def log_system_frame split: sum.splits)
  qed
qed

lemma outgoing_frame:
  "outgoing s clock t = Some r \<Longrightarrow>
     slept (case r of Inl x \<Rightarrow> x | Inr x \<Rightarrow> x) = slept s \<and>
     reconnect_delay (case r of Inl x \<Rightarrow> x | Inr x \<Rightarrow> x) = reconnect_delay s"
  by (auto simp: outgoing_def Let_def small_frames split: list.splits option.splits prod.splits
      dest!: sock_send_frame)

lemma check_control_frame:
  "check_control s = (b, s') \<Longrightarrow> slept s' = slept s \<and> reconnect_delay s' = reconnect_delay s"
  by (auto simp: check_control_def Let_def split: list.splits if_splits)

lemma link_status_frame:
  "slept (link_status up s) = slept s" "reconnect_delay (link_status up s) = reconnect_delay s"
  "running (link_status up s) = running s"
  by (simp_all add: link_status_def)

lemma connected_loop_frame:
  "connected_loop s es = Some (x, s') \<Longrightarrow> slept s' = slept s \<and> reconnect_delay s' = reconnect_delay s"
proof (induction es arbitrary: s)
  case Nil
  then show ?case by (auto split: if_splits)
next
  case (Cons e es)
  show ?case
  proof (cases "running s")
    case False
    then show ?thesis using Cons.prems by simp
  next
    case True
    obtain b s1 where cc: "check_control (link_status (env_link_up e) s) = (b, s1)"
      by (cases "check_control (link_status (env_link_up e) s)")
    note f1 = check_control_frame[OF cc, unfolded link_status_frame]
    show ?thesis
    proof (cases b)
      case True
      then show ?thesis using Cons.prems \<open>running s\<close> cc f1 by simp
    next
      case nb: False
      from Cons.prems True cc nb obtain r where og: "outgoing s1 (env_clock e) (env_sent_time e) = Some r"
        by (auto split: option.splits)
      note f2 = outgoing_frame[OF og]
      show ?thesis
      proof (cases r)
        case (Inl s2)
        then show ?thesis using Cons.prems True cc nb og f1 f2 by simp
      next
        case (Inr s2)
        obtain fl s3 where inc: "incoming s2 (env_recv e) = (fl, s3)" by (cases "incoming s2 (env_recv e)")
        note f3 = incoming_frame[OF inc]
        show ?thesis
        proof (cases fl)
          case Break
          then show ?thesis using Cons.prems True cc nb og Inr inc f1 f2 f3 by simp
        next
          case Continue
          then have "connected_loop s3 es = Some (x, s')"
            using Cons.prems True cc nb og Inr inc by simp
          from Cons.IH[OF this] show ?thesis using f1 f2 f3 Inr by simp
        qed
      qed
    qed
  qed
qed

lemma announce_each_frame:
  "slept (announce_each s cs) = slept s \<and> reconnect_delay (announce_each s cs) = reconnect_delay s
   \<and> running (announce_each s cs) = running s"
  by (induction cs arbitrary: s) (simp_all add: gui_put_def)

lemma connect_unreachable:
  "connect s False = Inl (s\<lparr>sock := Some \<lparr>alive = False, sent = []\<rparr>\<rparr>)"
  by (simp add: connect_def)

lemma connect_reachable:
  "\<exists>s1. connect s True = Inr s1 \<and> slept s1 = slept s \<and> running s1 = running s"
  by (simp add: connect_def Let_def sock_send_def announce_each_frame log_system_def gui_put_def)

lemma backoff_fields:
  "slept (backoff s) = slept s @ [real (reconnect_delay s)]"
  "reconnect_delay (backoff s) = min (reconnect_delay s * 2) 60"
  "running (backoff s) = running s"
  by (simp_all add: backoff_def log_system_def)

lemma run_once_unreachable:
  "\<not> env_reachable e \<Longrightarrow>
     run_once s e = Some (backoff (s\<lparr>sock := Some \<lparr>alive = False, sent = []\<rparr>\<rparr>))"
  by (simp add: run_once_def connect_unreachable)

lemma capped_double: "min (min (d * 2) 60 * 2 ^ i) 60 = min (d * 2 ^ Suc i) (60::nat)"
proof (cases "d * 2 \<le> 60")
  case True
  then show ?thesis by (simp add: mult.assoc)
next
  case False
  have p: "1 \<le> (2::nat) ^ i" by simp
  have a: "min (d * 2) 60 = 60" using False by simp
  have "60 * 1 \<le> 60 * (2::nat) ^ i" using p by (rule mult_le_mono2)
  then have b: "min (60 * 2 ^ i) 60 = (60::nat)" by simp
  define x where "x = d * 2 ^ i"
  have dx: "d \<le> x" unfolding x_def by simp
  have "d * 2 ^ Suc i = 2 * x" unfolding x_def by simp
  then have c: "min (d * 2 ^ Suc i) 60 = 60" using False dx by linarith
  show ?thesis by (simp only: a b c)
qed

lemma run_loop_unreachable:
  "running s \<Longrightarrow> reconnect_delay s \<le> 60 \<Longrightarrow> \<forall>e\<in>set es. \<not> env_reachable e \<Longrightarrow>
     \<exists>s'. run_loop s es = Some s' \<and> running s' \<and>
          slept s' = slept s @ map (\<lambda>i. real (min (reconnect_delay s * 2 ^ i) 60)) [0..<length es] \<and>
          reconnect_delay s' = min (reconnect_delay s * 2 ^ length es) 60"
proof (induction es arbitrary: s)
  case Nil
  then show ?case by simp
next
  case (Cons e es)
  let ?s1 = "backoff (s\<lparr>sock := Some \<lparr>alive = False, sent = []\<rparr>\<rparr>)"
  have once: "run_once s e = Some ?s1" using Cons.prems(3) by (simp add: run_once_unreachable)
  have r1: "running ?s1" using Cons.prems(1) by (simp add: backoff_fields)
  have d1: "reconnect_delay ?s1 = min (reconnect_delay s * 2) 60" by (simp add: backoff_fields)
  have sl1: "slept ?s1 = slept s @ [real (reconnect_delay s)]" by (simp add: backoff_fields)
  have le1: "reconnect_delay ?s1 \<le> 60" by (simp add: backoff_fields)
  from Cons.IH[OF r1 le1] Cons.prems(3) obtain s' where
    s': "run_loop ?s1 es = Some s'" "running s'"
      "slept s' = slept ?s1 @ map (\<lambda>i. real (min (reconnect_delay ?s1 * 2 ^ i) 60)) [0..<length es]"
      "reconnect_delay s' = min (reconnect_delay ?s1 * 2 ^ length es) 60"
    by auto
  have "run_loop s (e # es) = Some s'" using Cons.prems(1) once s'(1) by simp
  moreover have "reconnect_delay s' = min (reconnect_delay s * 2 ^ length (e # es)) 60"
    using s'(4) d1 capped_double[of "reconnect_delay s" "length es"] by simp
  moreover have "slept s' = slept s @ map (\<lambda>i. real (min (reconnect_delay s * 2 ^ i) 60)) [0..<length (e # es)]"
  proof -
    have "map (\<lambda>i. real (min (reconnect_delay s * 2 ^ i) 60)) [0..<Suc (length es)] =
          real (min (reconnect_delay s) 60) #
            map (\<lambda>i. real (min (reconnect_delay s * 2 ^ Suc i) 60)) [0..<length es]"
      by (simp add: map_upt_Suc del: upt_Suc)
    moreover have "min (reconnect_delay s) 60 = reconnect_delay s" using Cons.prems(2) by simp
    ultimately show ?thesis
      using s'(3) sl1 d1 capped_double[of "reconnect_delay s"] by simp
  qed
  ultimately show ?case using s'(2) by blast
qed

section \<open>Reconnect backoff\<close>

lemma run_once_broke:
  assumes "env_reachable e" and "connect s True = Inr c"
      and "connected_loop (c\<lparr>reconnect_delay := 1\<rparr>) (env_iters e) = Some (Broke, s1)"
  shows "run_once s e = Some s1 \<and> slept s1 = slept s \<and> reconnect_delay s1 = 1"
proof -
  have "slept c = slept s" using connect_reachable[of s] assms(2) by auto
  then show ?thesis using assms connected_loop_frame[OF assms(3)] by (simp add: run_once_def)
qed

lemma run_once_raised:
  assumes "env_reachable e" and "connect s True = Inr c"
      and "connected_loop (c\<lparr>reconnect_delay := 1\<rparr>) (env_iters e) = Some (Raised, s1)"
  shows "run_once s e = Some (backoff s1) \<and> slept (backoff s1) = slept s @ [1] \<and>
         reconnect_delay (backoff s1) = 2"
proof -
  have "slept c = slept s" using connect_reachable[of s] assms(2) by auto
  then show ?thesis using assms connected_loop_frame[OF assms(3)]
    by (simp add: run_once_def backoff_fields)
qed

text \<open>
  Claim C5. A new shard has reconnect delay 1. A pass of the outer loop whose connection
  fails sleeps for the current delay and then doubles it, capped at 60, so the \<open>i\<close>-th of
  consecutive failures from a new shard waits \<open>min (2 ^ i) 60\<close> seconds and three of them
  wait 1, 2 and 4. A successful connection sets the delay to 1. When its connected loop
  ends by a break, the pass sleeps nothing and leaves the delay at 1, and the failed
  connection that follows waits 1 second and doubles the delay to 2. When its connected
  loop ends by an exception, that failure waits 1 second and doubles the delay to 2.
\<close>

theorem reconnect_backoff:
  assumes "\<forall>e\<in>set fails. \<not> env_reachable e"
      and "\<not> env_reachable bad"
      and "env_reachable okB" and "connect sB True = Inr cB"
      and "connected_loop (cB\<lparr>reconnect_delay := 1\<rparr>) (env_iters okB) = Some (Broke, sB1)"
      and "env_reachable okR" and "connect sR True = Inr cR"
      and "connected_loop (cR\<lparr>reconnect_delay := 1\<rparr>) (env_iters okR) = Some (Raised, sR1)"
  shows "reconnect_delay (IRCShard_init chans sid c dd t0) = 1 \<and>
         (\<exists>s'. run_loop (IRCShard_init chans sid c dd t0) fails = Some s' \<and>
               slept s' = map (\<lambda>i. real (min (2 ^ i) 60)) [0..<length fails] \<and>
               reconnect_delay s' = min (2 ^ length fails) 60) \<and>
         (\<exists>s'. run_loop (IRCShard_init chans sid c dd t0) [bad, bad, bad] = Some s' \<and>
               slept s' = [1, 2, 4]) \<and>
         (\<exists>s'. run_once s bad = Some s' \<and> slept s' = slept s @ [real (reconnect_delay s)] \<and>
               reconnect_delay s' = min (reconnect_delay s * 2) 60) \<and>
         (run_once sB okB = Some sB1 \<and> slept sB1 = slept sB \<and> reconnect_delay sB1 = 1 \<and>
            (\<exists>s2. run_once sB1 bad = Some s2 \<and> slept s2 = slept sB @ [1] \<and>
                  reconnect_delay s2 = 2)) \<and>
         (\<exists>s2. run_once sR okR = Some s2 \<and> slept s2 = slept sR @ [1] \<and> reconnect_delay s2 = 2)"
proof -
  let ?s0 = "IRCShard_init chans sid c dd t0"
  have i: "running ?s0" "reconnect_delay ?s0 = 1" "slept ?s0 = []"
    by (simp_all add: IRCShard_init_def)
  have le: "reconnect_delay ?s0 \<le> 60" using i(2) by simp
  from run_loop_unreachable[OF i(1) le assms(1)] i(2,3)
  have 2: "\<exists>s'. run_loop ?s0 fails = Some s' \<and>
               slept s' = map (\<lambda>i. real (min (2 ^ i) 60)) [0..<length fails] \<and>
               reconnect_delay s' = min (2 ^ length fails) 60"
    by auto
  have "\<forall>e\<in>set [bad, bad, bad]. \<not> env_reachable e" using assms(2) by simp
  from run_loop_unreachable[OF i(1) le this] obtain s3 where
    s3: "run_loop ?s0 [bad, bad, bad] = Some s3"
        "slept s3 = slept ?s0 @
           map (\<lambda>i. real (min (reconnect_delay ?s0 * 2 ^ i) 60)) [0..<length [bad, bad, bad]]"
    by blast
  have "[0..<length [bad, bad, bad]] = [0, 1, 2]" by (simp add: upt_rec)
  then have "slept s3 = [1, 2, 4]" using s3(2) i(2,3) by simp
  then have 3: "\<exists>s'. run_loop ?s0 [bad, bad, bad] = Some s' \<and> slept s' = [1, 2, 4]"
    using s3(1) by blast
  have 4: "\<exists>s'. run_once s bad = Some s' \<and> slept s' = slept s @ [real (reconnect_delay s)] \<and>
               reconnect_delay s' = min (reconnect_delay s * 2) 60"
    using assms(2) by (simp add: run_once_unreachable backoff_fields)
  note b = run_once_broke[OF assms(3,4,5)]
  have 5: "run_once sB okB = Some sB1 \<and> slept sB1 = slept sB \<and> reconnect_delay sB1 = 1 \<and>
            (\<exists>s2. run_once sB1 bad = Some s2 \<and> slept s2 = slept sB @ [1] \<and>
                  reconnect_delay s2 = 2)"
    using b assms(2) by (simp add: run_once_unreachable backoff_fields)
  have 6: "\<exists>s2. run_once sR okR = Some s2 \<and> slept s2 = slept sR @ [1] \<and> reconnect_delay s2 = 2"
    using run_once_raised[OF assms(6,7,8)] by blast
  show ?thesis using i(2) 2 3 4 5 6 by blast
qed

theorem reconnect_backoff_witness:
  "\<not> env_reachable \<lparr>env_reachable = False, env_iters = []\<rparr> \<and>
   (\<exists>cB sB1. connect (IRCShard_init [''foo''] ''shard_0'' RuntimeContext_init None 0) True = Inr cB \<and>
      connected_loop (cB\<lparr>reconnect_delay := 1\<rparr>)
        [\<lparr>env_link_up = True, env_clock = [], env_sent_time = 0, env_recv = RecvData []\<rparr>] =
        Some (Broke, sB1) \<and>
      run_once (IRCShard_init [''foo''] ''shard_0'' RuntimeContext_init None 0)
        \<lparr>env_reachable = True,
         env_iters = [\<lparr>env_link_up = True, env_clock = [], env_sent_time = 0,
                      env_recv = RecvData []\<rparr>]\<rparr> = Some sB1 \<and>
      slept sB1 = [] \<and>
      (\<exists>s2. run_once sB1 \<lparr>env_reachable = False, env_iters = []\<rparr> = Some s2 \<and> slept s2 = [1])) \<and>
   (\<exists>cR sR1. connect (IRCShard_init [''foo''] ''shard_0''
          (RuntimeContext_init\<lparr>send_queue := [(''foo'', ''hi'')]\<rparr>) None 0) True = Inr cR \<and>
      connected_loop (cR\<lparr>reconnect_delay := 1\<rparr>)
        [\<lparr>env_link_up = False, env_clock = [100], env_sent_time = 100, env_recv = RecvTimeout\<rparr>] =
        Some (Raised, sR1) \<and>
      (\<exists>s2. run_once (IRCShard_init [''foo''] ''shard_0''
          (RuntimeContext_init\<lparr>send_queue := [(''foo'', ''hi'')]\<rparr>) None 0)
        \<lparr>env_reachable = True,
         env_iters = [\<lparr>env_link_up = False, env_clock = [100], env_sent_time = 100,
                      env_recv = RecvTimeout\<rparr>]\<rparr> = Some s2 \<and> slept s2 = [1])) \<and>
   (\<exists>s'. run_loop (IRCShard_init [''foo''] ''shard_0'' RuntimeContext_init None 0)
       [\<lparr>env_reachable = False, env_iters = []\<rparr>, \<lparr>env_reachable = False, env_iters = []\<rparr>,
        \<lparr>env_reachable = False, env_iters = []\<rparr>] = Some s' \<and> slept s' = [1, 2, 4])"
proof -
  let ?bad = "\<lparr>env_reachable = False, env_iters = []\<rparr>"
  let ?itB = "[\<lparr>env_link_up = True, env_clock = [], env_sent_time = 0, env_recv = RecvData []\<rparr>]"
  let ?itR = "[\<lparr>env_link_up = False, env_clock = [100], env_sent_time = 100, env_recv = RecvTimeout\<rparr>]"
  let ?okB = "\<lparr>env_reachable = True, env_iters = ?itB\<rparr>"
  let ?okR = "\<lparr>env_reachable = True, env_iters = ?itR\<rparr>"
  let ?sB = "IRCShard_init [''foo''] ''shard_0'' RuntimeContext_init None 0"
  let ?sR = "IRCShard_init [''foo''] ''shard_0''
          (RuntimeContext_init\<lparr>send_queue := [(''foo'', ''hi'')]\<rparr>) None 0"
  note defs = connect_def IRCShard_init_def RuntimeContext_init_def Let_def
        sock_send_def gui_put_def log_system_def check_control_def outgoing_def incoming_def
        link_status_def TwitchLimiter_init_def allow_def MSG_LIMIT_def MSG_WINDOW_def
        MIN_MSG_DELAY_def
  have h1: "\<forall>e\<in>set [?bad, ?bad]. \<not> env_reachable e" by simp
  have h2: "\<not> env_reachable ?bad" by simp
  have h3: "env_reachable ?okB" by simp
  have h6: "env_reachable ?okR" by simp
  obtain cB sB1 where h4: "connect ?sB True = Inr cB"
      and h5: "connected_loop (cB\<lparr>reconnect_delay := 1\<rparr>) (env_iters ?okB) = Some (Broke, sB1)"
    by (simp add: defs)
  obtain cR sR1 where h7: "connect ?sR True = Inr cR"
      and h8: "connected_loop (cR\<lparr>reconnect_delay := 1\<rparr>) (env_iters ?okR) = Some (Raised, sR1)"
    by (simp add: defs)
  have i: "slept ?sB = []" "slept ?sR = []" by (simp_all add: IRCShard_init_def)
  from reconnect_backoff[OF h1 h2 h3 h4 h5 h6 h7 h8,
      of "[''foo'']" "''shard_0''" RuntimeContext_init None 0]
  show ?thesis using h2 h4 h5 h7 h8 unfolding i by (simp del: connected_loop.simps) blast
qed

section \<open>Cleanup and the metrics snapshot\<close>

lemma part_each_frame:
  "channels (part_each s cs) = channels s \<and> files (ctx (part_each s cs)) = files (ctx s) \<and>
   shard_id (part_each s cs) = shard_id s \<and> message_count (part_each s cs) = message_count s \<and>
   shard_start_time (part_each s cs) = shard_start_time s \<and> limiter (part_each s cs) = limiter s \<and>
   data_dir (part_each s cs) = data_dir s \<and> (sock (part_each s cs) = None \<longleftrightarrow> sock s = None)"
proof (induction cs arbitrary: s)
  case Nil
  show ?case by simp
next
  case (Cons c cs)
  show ?case
  proof (cases "sock_send s (''PART #'' @ c @ CRLF)")
    case None
    then show ?thesis using Cons.IH[of s] by simp
  next
    case (Some s1)
    let ?s2 = "gui_put (Tuple [Str c, Str ''SYSTEM'', Str (''Bot parted #'' @ c)]) s1"
    have "channels ?s2 = channels s \<and> files (ctx ?s2) = files (ctx s) \<and>
      shard_id ?s2 = shard_id s \<and> message_count ?s2 = message_count s \<and>
      shard_start_time ?s2 = shard_start_time s \<and> limiter ?s2 = limiter s \<and>
      data_dir ?s2 = data_dir s \<and> (sock ?s2 = None \<longleftrightarrow> sock s = None)"
      using Some by (auto simp: sock_send_def gui_put_def split: option.splits if_splits)
    then show ?thesis using Cons.IH[of ?s2] Some by simp
  qed
qed

lemma part_channels_all:
  "sock s \<noteq> None \<Longrightarrow>
   channels (part_channels s (channels s)) = [] \<and>
   files (ctx (part_channels s (channels s))) = files (ctx s) \<and>
   shard_id (part_channels s (channels s)) = shard_id s \<and>
   message_count (part_channels s (channels s)) = message_count s \<and>
   shard_start_time (part_channels s (channels s)) = shard_start_time s \<and>
   limiter (part_channels s (channels s)) = limiter s \<and>
   data_dir (part_channels s (channels s)) = data_dir s \<and>
   sock (part_channels s (channels s)) \<noteq> None"
  using part_each_frame[of s "channels s"]
  by (auto simp: part_channels_def Let_def)

text \<open>
  Claim C4, the code at the failing input. When \<^verbatim>\<open>cleanup\<close> runs on a shard that has a
  socket and a data directory, it writes one snapshot with the shard id, the message
  count, the uptime and the limiter's report, but \<^verbatim>\<open>part_channels(self.channels)\<close> has
  emptied \<^verbatim>\<open>self.channels\<close> before the snapshot is built: its channel list is empty,
  whatever channels the shard owned.
\<close>

theorem cleanup_snapshot_channels_empty:
  assumes "sock s \<noteq> None" and "data_dir s = Some d"
  shows "\<exists>snap. files (ctx (cleanup s now)) =
             files (ctx s) @ [(d @ ''/shard_'' @ shard_id s @ ''_metrics.json'', snap)] \<and>
           snap_channels snap = [] \<and>
           snap_shard_id snap = shard_id s \<and>
           snap_message_count snap = message_count s \<and>
           snap_runtime_seconds snap = now - shard_start_time s \<and>
           snap_rate_limiter_metrics snap = get_metrics (limiter s) now"
proof (cases "channels s = []")
  case True
  then show ?thesis using assms by (auto simp: cleanup_def Let_def)
next
  case False
  let ?p = "part_channels s (channels s)"
  note p = part_channels_all[OF assms(1)]
  from p obtain sk where sk: "sock ?p = Some sk" by auto
  show ?thesis using False assms p sk by (simp add: cleanup_def Let_def)
qed

theorem cleanup_snapshot_channels_empty_witness:
  "channels ((IRCShard_init [''foo'', ''bar''] ''shard_0'' RuntimeContext_init (Some ''data'') 0)
      \<lparr>sock := Some \<lparr>alive = True, sent = []\<rparr>\<rparr>) = [''foo'', ''bar''] \<and>
   (\<exists>snap. files (ctx (cleanup ((IRCShard_init [''foo'', ''bar''] ''shard_0'' RuntimeContext_init (Some ''data'') 0)
      \<lparr>sock := Some \<lparr>alive = True, sent = []\<rparr>\<rparr>) 10)) =
        [(''data/shard_shard_0_metrics.json'', snap)] \<and> snap_channels snap = [])"
proof -
  let ?s = "(IRCShard_init [''foo'', ''bar''] ''shard_0'' RuntimeContext_init (Some ''data'') 0)
      \<lparr>sock := Some \<lparr>alive = True, sent = []\<rparr>\<rparr>"
  have h1: "sock ?s \<noteq> None" by simp
  have h2: "data_dir ?s = Some ''data''" by (simp add: IRCShard_init_def)
  have c: "channels ?s = [''foo'', ''bar'']" "files (ctx ?s) = []" "shard_id ?s = ''shard_0''"
    by (simp_all add: IRCShard_init_def RuntimeContext_init_def)
  from cleanup_snapshot_channels_empty[OF h1 h2, of 10] obtain snap where
    "files (ctx (cleanup ?s 10)) =
       files (ctx ?s) @ [(''data'' @ ''/shard_'' @ shard_id ?s @ ''_metrics.json'', snap)]"
    "snap_channels snap = []"
    by blast
  then have "files (ctx (cleanup ?s 10)) = [(''data/shard_shard_0_metrics.json'', snap)] \<and>
      snap_channels snap = []"
    unfolding c by simp
  then show ?thesis using c(1) by blast
qed

section \<open>Line dispatch and parsing\<close>

lemma chat_line_facts:
  "'':alice!alice@x PRIVMSG #foo :hello'' \<noteq> []"
  "startswith '':alice!alice@x PRIVMSG #foo :hello'' ''PING'' = False"
  "startswith '':alice!alice@x PRIVMSG #foo :hello'' ''@'' = False"
  "contains '':alice!alice@x PRIVMSG #foo :hello'' ''PRIVMSG'' = True"
  "split1 '':alice!alice@x PRIVMSG #foo :hello'' ''PRIVMSG'' = ['':alice!alice@x '', '' #foo :hello'']"
  "strip '':alice!alice@x '' = '':alice!alice@x''"
  "strip '' #foo :hello'' = ''#foo :hello''"
  "contains ''#foo :hello'' '':'' = True"
  "split1 ''#foo :hello'' '':'' = [''#foo '', ''hello'']"
  "lower (lstrip (strip ''#foo '') ''#'') = ''foo''"
  "strip ''hello'' = ''hello''"
  "lower (raw_user_of '':alice!alice@x'') = ''alice''"
  "lower ''alice'' = ''alice''"
  by (code_simp+)

lemma tagged_line_facts:
  "''@badge-info=;subscriber=1;user-id=42 :alice!alice@x PRIVMSG #foo :hello'' \<noteq> []"
  "startswith ''@badge-info=;subscriber=1;user-id=42 :alice!alice@x PRIVMSG #foo :hello'' ''PING'' = False"
  "startswith ''@badge-info=;subscriber=1;user-id=42 :alice!alice@x PRIVMSG #foo :hello'' ''@'' = True"
  "contains ''@badge-info=;subscriber=1;user-id=42 :alice!alice@x PRIVMSG #foo :hello'' ''PRIVMSG'' = True"
  "split1 ''@badge-info=;subscriber=1;user-id=42 :alice!alice@x PRIVMSG #foo :hello'' '' '' =
     [''@badge-info=;subscriber=1;user-id=42'', '':alice!alice@x PRIVMSG #foo :hello'']"
  by (code_simp+)

lemma track_user_queues:
  "chat_log (ctx (track_user c u s)) = chat_log (ctx s)"
  "gui_queue (ctx (track_user c u s)) = gui_queue (ctx s)"
  "message_count (track_user c u s) = message_count s"
  by (simp_all add: track_user_def log_system_def split: option.splits)

lemma parse_chat_line:
  "parse_privmsg s '':alice!alice@x PRIVMSG #foo :hello'' =
     track_user ''foo'' ''alice''
       (log_system ''USER_METADATA'' ''foo'' ''INFO''
         (gui_put (Tuple [Str ''foo'', Str ''CHAT'', Str ''alice: hello''])
           (log_chat ''foo'' ''alice'' ''CHAT'' ''hello''
             (s\<lparr>message_count := message_count s + 1\<rparr>))))"
  by (simp add: parse_privmsg_def Let_def chat_line_facts del: contains.simps)

lemma parse_tagged_line:
  "parse_privmsg s ''@badge-info=;subscriber=1;user-id=42 :alice!alice@x PRIVMSG #foo :hello'' =
     track_user ''foo'' ''alice''
       (log_system ''USER_METADATA'' ''foo'' ''INFO''
         (gui_put (Tuple [Str ''foo'', Str ''CHAT'', Str ''alice: hello''])
           (log_chat ''foo'' ''alice'' ''CHAT'' ''hello''
             (s\<lparr>message_count := message_count s + 1\<rparr>))))"
  by (simp add: parse_privmsg_def Let_def chat_line_facts tagged_line_facts del: contains.simps)

lemma chat_event_fields:
  assumes "s' = track_user ''foo'' ''alice''
       (log_system ''USER_METADATA'' ''foo'' ''INFO''
         (gui_put (Tuple [Str ''foo'', Str ''CHAT'', Str ''alice: hello''])
           (log_chat ''foo'' ''alice'' ''CHAT'' ''hello''
             (s\<lparr>message_count := message_count s + 1\<rparr>))))"
  shows "chat_log (ctx s') = chat_log (ctx s) @ [(''foo'', ''alice'', ''CHAT'', ''hello'')] \<and>
         gui_queue (ctx s') = gui_queue (ctx s) @ [Tuple [Str ''foo'', Str ''CHAT'', Str ''alice: hello'']] \<and>
         message_count s' = message_count s + 1"
  unfolding assms
  by (simp add: track_user_queues log_system_def gui_put_def log_chat_def chat_line_facts)

lemma dispatch_chat_line:
  "\<exists>s'. dispatch_line s '':alice!alice@x PRIVMSG #foo :hello'' = Some s' \<and>
        chat_log (ctx s') = chat_log (ctx s) @ [(''foo'', ''alice'', ''CHAT'', ''hello'')] \<and>
        gui_queue (ctx s') = gui_queue (ctx s) @ [Tuple [Str ''foo'', Str ''CHAT'', Str ''alice: hello'']] \<and>
        message_count s' = message_count s + 1"
  using chat_event_fields[OF refl, of s]
  by (simp add: dispatch_line_def parse_chat_line chat_line_facts del: contains.simps)

lemma dispatch_tagged_line:
  "\<exists>s'. dispatch_line s ''@badge-info=;subscriber=1;user-id=42 :alice!alice@x PRIVMSG #foo :hello'' = Some s' \<and>
        chat_log (ctx s') = chat_log (ctx s) @ [(''foo'', ''alice'', ''CHAT'', ''hello'')] \<and>
        gui_queue (ctx s') = gui_queue (ctx s) @ [Tuple [Str ''foo'', Str ''CHAT'', Str ''alice: hello'']] \<and>
        message_count s' = message_count s + 1"
  using chat_event_fields[OF refl, of s]
  by (simp add: dispatch_line_def parse_tagged_line tagged_line_facts del: contains.simps)

lemma dispatch_line_alive:
  assumes "sock s = Some sk" and "alive sk"
  shows "\<exists>s' sk'. dispatch_line s l = Some s' \<and> sock s' = Some sk' \<and> alive sk' \<and>
           running s' = running s"
  using assms parse_privmsg_frame[of s l] parse_notice_frame[of s l] parse_presence_frame[of s l]
  by (auto simp: dispatch_line_def sock_send_def)

lemma process_lines_alive:
  "sock s = Some sk \<Longrightarrow> alive sk \<Longrightarrow>
     \<exists>s'. process_lines s ls = Inr s' \<and> running s' = running s"
proof (induction ls arbitrary: s sk)
  case Nil
  then show ?case by simp
next
  case (Cons l ls)
  from dispatch_line_alive[OF Cons.prems, of l] obtain s1 sk1 where
    d: "dispatch_line s l = Some s1" "sock s1 = Some sk1" "alive sk1" "running s1 = running s"
    by blast
  from Cons.IH[OF d(2,3)] d(1,4) show ?case by simp
qed

lemma incoming_continues:
  assumes "sock s = Some sk" and "alive sk" and "d \<noteq> []"
  shows "\<exists>s'. process_lines (s\<lparr>buffer := last (py_split (buffer s @ d) CRLF)\<rparr>)
                 (butlast (py_split (buffer s @ d) CRLF)) = Inr s' \<and>
              incoming s (RecvData d) = (Continue, s') \<and> running s' = running s"
proof -
  let ?lines = "py_split (buffer s @ d) CRLF"
  let ?s1 = "s\<lparr>buffer := last ?lines\<rparr>"
  have "sock ?s1 = Some sk" using assms(1) by simp
  from process_lines_alive[OF this assms(2), of "butlast ?lines"] obtain s' where
    "process_lines ?s1 (butlast ?lines) = Inr s'" "running s' = running s" by auto
  then show ?thesis using assms(3) by (simp add: incoming_def Let_def)
qed

lemma privmsg_without_colon:
  assumes "rest = l \<and> \<not> startswith l ''@'' \<or>
           startswith l ''@'' \<and> (\<exists>tag_part. split1 l '' '' = [tag_part, rest])"
      and "split1 rest ''PRIVMSG'' = [p0, p1]"
      and "\<not> contains (strip p1) '':''"
  shows "parse_privmsg s l = s"
  using assms by (auto simp: parse_privmsg_def Let_def)

text \<open>
  Claim C6. On a shard whose socket is alive: a line that starts with \<^verbatim>\<open>PING\<close> appends
  exactly one pong to the data sent and changes nothing else, so no chat event; the line
  \<^verbatim>\<open>:alice!alice@x PRIVMSG #foo :hello\<close>, and the same line behind a tag prefix as the
  server sends it, logs the chat message (foo, alice, hello), puts the chat event for
  channel foo on the GUI queue and counts one message; a \<^verbatim>\<open>PRIVMSG\<close> line, with a tag
  prefix or without, whose body has no colon leaves the shard as it was. No line other
  than a heartbeat can raise in the dispatch, and whatever data is received, every complete
  line of it is dispatched without an exception and the connected loop goes on to its next
  iteration with \<open>running\<close> unchanged.
\<close>

theorem line_dispatch:
  assumes "sock s = Some sk" and "alive sk"
      and "startswith ping ''PING''"
      and "contains bad ''PRIVMSG''" and "\<not> startswith bad ''PING''"
      and "rest = bad \<and> \<not> startswith bad ''@'' \<or>
           startswith bad ''@'' \<and> (\<exists>tag_part. split1 bad '' '' = [tag_part, rest])"
      and "split1 rest ''PRIVMSG'' = [p0, p1]" and "\<not> contains (strip p1) '':''"
      and "\<not> startswith l ''PING''"
      and "d \<noteq> []"
  shows "dispatch_line s ping =
           Some (s\<lparr>sock := Some (sk\<lparr>sent := sent sk @ [''PONG :tmi.twitch.tv'' @ CRLF]\<rparr>)\<rparr>) \<and>
         (\<exists>s'. dispatch_line s '':alice!alice@x PRIVMSG #foo :hello'' = Some s' \<and>
            chat_log (ctx s') = chat_log (ctx s) @ [(''foo'', ''alice'', ''CHAT'', ''hello'')] \<and>
            gui_queue (ctx s') =
              gui_queue (ctx s) @ [Tuple [Str ''foo'', Str ''CHAT'', Str ''alice: hello'']] \<and>
            message_count s' = message_count s + 1) \<and>
         (\<exists>s'. dispatch_line s
                  ''@badge-info=;subscriber=1;user-id=42 :alice!alice@x PRIVMSG #foo :hello'' = Some s' \<and>
            chat_log (ctx s') = chat_log (ctx s) @ [(''foo'', ''alice'', ''CHAT'', ''hello'')] \<and>
            gui_queue (ctx s') =
              gui_queue (ctx s) @ [Tuple [Str ''foo'', Str ''CHAT'', Str ''alice: hello'']] \<and>
            message_count s' = message_count s + 1) \<and>
         dispatch_line s bad = Some s \<and>
         dispatch_line s0 l \<noteq> None \<and>
         (\<exists>s'. process_lines (s\<lparr>buffer := last (py_split (buffer s @ d) CRLF)\<rparr>)
                  (butlast (py_split (buffer s @ d) CRLF)) = Inr s' \<and>
               incoming s (RecvData d) = (Continue, s') \<and> running s' = running s)"
proof -
  have "ping \<noteq> []" using assms(3) by (auto simp: startswith_def)
  then have 1: "dispatch_line s ping =
           Some (s\<lparr>sock := Some (sk\<lparr>sent := sent sk @ [''PONG :tmi.twitch.tv'' @ CRLF]\<rparr>)\<rparr>)"
    using assms(1,2,3) by (simp add: dispatch_line_def sock_send_def)
  have "bad \<noteq> []" using assms(4) by auto
  then have 3: "dispatch_line s bad = Some s"
    using assms(4,5) privmsg_without_colon[OF assms(6,7,8)] by (simp add: dispatch_line_def)
  have 4: "dispatch_line s0 l \<noteq> None" using assms(9) by (simp add: dispatch_line_def)
  show ?thesis
    using 1 dispatch_chat_line[of s] dispatch_tagged_line[of s] 3 4
      incoming_continues[OF assms(1,2,10)]
    by blast
qed

theorem line_dispatch_witness:
  "startswith ''PING :tmi.twitch.tv'' ''PING'' \<and>
   startswith ''@badge-info=;subscriber=1 :alice!alice@x PRIVMSG #foo hello'' ''@'' \<and>
   split1 ''@badge-info=;subscriber=1 :alice!alice@x PRIVMSG #foo hello'' '' '' =
     [''@badge-info=;subscriber=1'', '':alice!alice@x PRIVMSG #foo hello''] \<and>
   split1 '':alice!alice@x PRIVMSG #foo hello'' ''PRIVMSG'' = ['':alice!alice@x '', '' #foo hello''] \<and>
   dispatch_line ((IRCShard_init [''foo''] ''shard_0'' RuntimeContext_init None 0)
       \<lparr>sock := Some \<lparr>alive = True, sent = []\<rparr>\<rparr>)
       ''@badge-info=;subscriber=1 :alice!alice@x PRIVMSG #foo hello'' =
     Some ((IRCShard_init [''foo''] ''shard_0'' RuntimeContext_init None 0)
       \<lparr>sock := Some \<lparr>alive = True, sent = []\<rparr>\<rparr>) \<and>
   dispatch_line ((IRCShard_init [''foo''] ''shard_0'' RuntimeContext_init None 0)
       \<lparr>sock := Some \<lparr>alive = True, sent = []\<rparr>\<rparr>) '':alice!alice@x PRIVMSG #foo hello'' =
     Some ((IRCShard_init [''foo''] ''shard_0'' RuntimeContext_init None 0)
       \<lparr>sock := Some \<lparr>alive = True, sent = []\<rparr>\<rparr>) \<and>
   dispatch_line ((IRCShard_init [''foo''] ''shard_0'' RuntimeContext_init None 0)
       \<lparr>sock := Some \<lparr>alive = True, sent = []\<rparr>\<rparr>) ''PING :tmi.twitch.tv'' =
     Some ((IRCShard_init [''foo''] ''shard_0'' RuntimeContext_init None 0)
       \<lparr>sock := Some \<lparr>alive = True, sent = [''PONG :tmi.twitch.tv'' @ CRLF]\<rparr>\<rparr>) \<and>
   py_split (''@PRIVMSG'' @ CRLF) CRLF = [''@PRIVMSG'', []] \<and>
   fst (incoming ((IRCShard_init [''foo''] ''shard_0'' RuntimeContext_init None 0)
       \<lparr>sock := Some \<lparr>alive = True, sent = []\<rparr>\<rparr>) (RecvData (''@PRIVMSG'' @ CRLF))) = Continue \<and>
   system_log (ctx (snd (incoming ((IRCShard_init [''foo''] ''shard_0'' RuntimeContext_init None 0)
       \<lparr>sock := Some \<lparr>alive = True, sent = []\<rparr>\<rparr>) (RecvData (''@PRIVMSG'' @ CRLF))))) =
     [(''PARSE_ERROR'', ''UNKNOWN'', ''ERROR'')]"
proof -
  let ?s = "(IRCShard_init [''foo''] ''shard_0'' RuntimeContext_init None 0)
       \<lparr>sock := Some \<lparr>alive = True, sent = []\<rparr>\<rparr>"
  let ?tbad = "''@badge-info=;subscriber=1 :alice!alice@x PRIVMSG #foo hello''"
  let ?bad = "'':alice!alice@x PRIVMSG #foo hello''"
  let ?d = "''@PRIVMSG'' @ CRLF"
  have h1: "sock ?s = Some \<lparr>alive = True, sent = []\<rparr>" by simp
  have h2: "alive \<lparr>alive = True, sent = []\<rparr>" by simp
  have h3: "startswith ''PING :tmi.twitch.tv'' ''PING''" by code_simp
  have t4: "contains ?tbad ''PRIVMSG''" by code_simp
  have t5: "\<not> startswith ?tbad ''PING''" by code_simp
  have ta: "startswith ?tbad ''@''" by code_simp
  have tb: "split1 ?tbad '' '' = [''@badge-info=;subscriber=1'', ?bad]" by code_simp
  have t6: "?bad = ?tbad \<and> \<not> startswith ?tbad ''@'' \<or>
            startswith ?tbad ''@'' \<and> (\<exists>tag_part. split1 ?tbad '' '' = [tag_part, ?bad])"
    using ta tb by blast
  have h4: "contains ?bad ''PRIVMSG''" by code_simp
  have h5: "\<not> startswith ?bad ''PING''" by code_simp
  have ua: "\<not> startswith ?bad ''@''" by code_simp
  have h6: "?bad = ?bad \<and> \<not> startswith ?bad ''@'' \<or>
            startswith ?bad ''@'' \<and> (\<exists>tag_part. split1 ?bad '' '' = [tag_part, ?bad])"
    using ua by blast
  have h7: "split1 ?bad ''PRIVMSG'' = ['':alice!alice@x '', '' #foo hello'']" by code_simp
  have h8: "\<not> contains (strip '' #foo hello'') '':''" by code_simp
  have h9: "\<not> startswith ''@PRIVMSG'' ''PING''" by code_simp
  have h10: "?d \<noteq> []" by simp
  have sp: "py_split ?d CRLF = [''@PRIVMSG'', []]" by code_simp
  have bf: "buffer ?s @ ?d = ?d" by (simp add: IRCShard_init_def)
  have dl: "dispatch_line (?s\<lparr>buffer := []\<rparr>) ''@PRIVMSG'' =
              Some (log_system ''PARSE_ERROR'' ''UNKNOWN'' ''ERROR'' (?s\<lparr>buffer := []\<rparr>))"
  proof -
    have f: "startswith ''@PRIVMSG'' ''PING'' = False" "contains ''@PRIVMSG'' ''PRIVMSG'' = True"
      "startswith ''@PRIVMSG'' ''@'' = True" "split1 ''@PRIVMSG'' '' '' = [''@PRIVMSG'']"
      by (code_simp+)
    show ?thesis by (simp add: dispatch_line_def parse_privmsg_def f del: contains.simps)
  qed
  note tagged = line_dispatch[OF h1 h2 h3 t4 t5 t6 h7 h8 h9 h10]
  note plain = line_dispatch[OF h1 h2 h3 h4 h5 h6 h7 h8 h9 h10]
  from tagged obtain s' where
    inc: "process_lines (?s\<lparr>buffer := last (py_split (buffer ?s @ ?d) CRLF)\<rparr>)
            (butlast (py_split (buffer ?s @ ?d) CRLF)) = Inr s'"
         "incoming ?s (RecvData ?d) = (Continue, s')"
    by blast
  have "s' = log_system ''PARSE_ERROR'' ''UNKNOWN'' ''ERROR'' (?s\<lparr>buffer := []\<rparr>)"
    using inc(1) unfolding bf sp by (simp add: dl)
  then have lg: "system_log (ctx s') = [(''PARSE_ERROR'', ''UNKNOWN'', ''ERROR'')]"
    by (simp add: log_system_def IRCShard_init_def RuntimeContext_init_def)
  have a: "dispatch_line ?s ?tbad = Some ?s" using tagged by blast
  have b: "dispatch_line ?s ?bad = Some ?s" using plain by blast
  have c: "dispatch_line ?s ''PING :tmi.twitch.tv'' =
     Some ((IRCShard_init [''foo''] ''shard_0'' RuntimeContext_init None 0)
       \<lparr>sock := Some \<lparr>alive = True, sent = [''PONG :tmi.twitch.tv'' @ CRLF]\<rparr>\<rparr>)"
    using tagged by simp
  show ?thesis using h3 ta tb h7 a b c sp inc(2) lg by simp
qed

section \<open>Outgoing messages\<close>

lemma wait_allow_some:
  "True \<in> set (fst (allow_seq lm clock)) \<Longrightarrow> \<exists>lm' n. wait_allow lm clock = Some (lm', n)"
proof (induction clock arbitrary: lm)
  case Nil
  then show ?case by simp
next
  case (Cons t ts)
  obtain r lm1 where a: "allow lm t = (r, lm1)" by (cases "allow lm t")
  show ?case
  proof (cases r)
    case True
    then show ?thesis using a by simp
  next
    case False
    then have "True \<in> set (fst (allow_seq lm1 ts))" using Cons.prems a by (simp add: split_def)
    from Cons.IH[OF this] show ?thesis using a False by auto
  qed
qed

lemma wait_allow_none:
  "True \<notin> set (fst (allow_seq lm clock)) \<Longrightarrow> wait_allow lm clock = None"
proof (induction clock arbitrary: lm)
  case Nil
  then show ?case by simp
next
  case (Cons t ts)
  obtain r lm1 where a: "allow lm t = (r, lm1)" by (cases "allow lm t")
  then have "\<not> r" "True \<notin> set (fst (allow_seq lm1 ts))" using Cons.prems by (auto simp: split_def)
  then show ?case using Cons.IH[of lm1] a by simp
qed

lemma outgoing_pops_front:
  assumes "sock s = Some sk" and "alive sk"
      and "send_queue (ctx s) = (chan, msg) # rest"
      and "wait_allow (limiter s) clock = Some (lm, n)"
  shows "\<exists>s'. outgoing s clock t = Some (Inr s') \<and>
           send_queue (ctx s') = rest \<and>
           limiter s' = lm \<and>
           sock s' = Some (sk\<lparr>sent := sent sk @ [''PRIVMSG #'' @ chan @ '' :'' @ msg @ CRLF]\<rparr>) \<and>
           gui_queue (ctx s') =
             gui_queue (ctx s) @ [Tuple [Str chan, Str ''SELF'', Str (''You: '' @ msg)]] \<and>
           chat_log (ctx s') = chat_log (ctx s) @ [(chan, lower (username s), ''SELF'', msg)] \<and>
           bot_state (ctx s') = (bot_state (ctx s))(chan \<mapsto> BLast msg t)"
  using assms by (simp add: outgoing_def Let_def sock_send_def log_chat_def gui_put_def)

lemma outgoing_send_raises:
  assumes "sock s = Some sk" and "\<not> alive sk"
      and "send_queue (ctx s) = (chan, msg) # rest"
      and "wait_allow (limiter s) clock = Some (lm, n)"
  shows "outgoing s clock t =
           Some (Inl (s\<lparr>ctx := (ctx s)\<lparr>send_queue := rest\<rparr>, limiter := lm, naps := naps s + n\<rparr>))"
  using assms by (simp add: outgoing_def Let_def sock_send_def)

text \<open>
  Claim C2, as amended. An iteration of the connected loop takes at most one item from the
  send queue, the front one, whatever channel it is addressed to: the shard does not
  compare it with its own channels. On a socket that accepts the send, once a call of the
  limiter has returned true, the item is sent as one \<^verbatim>\<open>PRIVMSG\<close>, the channel's entry of
  \<^verbatim>\<open>bot_state\<close> records the message and the time, the chat log records it as \<^verbatim>\<open>SELF\<close>
  under the bot's name in lower case, and the event (channel, SELF, text) is put on the GUI
  queue. With an empty send queue the block does nothing; while the limiter allows no
  call, nothing is sent.
\<close>

theorem outgoing_front_item:
  assumes "sock s = Some sk" and "alive sk"
      and "send_queue (ctx s) = (chan, msg) # rest"
      and "True \<in> set (fst (allow_seq (limiter s) clock))"
      and "send_queue (ctx s0) = []"
      and "True \<notin> set (fst (allow_seq (limiter s1) clock1))"
      and "send_queue (ctx s1) = item # rest1"
  shows "(\<exists>s' lm n. outgoing s clock t = Some (Inr s') \<and>
           wait_allow (limiter s) clock = Some (lm, n) \<and>
           send_queue (ctx s') = rest \<and>
           limiter s' = lm \<and>
           sock s' = Some (sk\<lparr>sent := sent sk @ [''PRIVMSG #'' @ chan @ '' :'' @ msg @ CRLF]\<rparr>) \<and>
           gui_queue (ctx s') =
             gui_queue (ctx s) @ [Tuple [Str chan, Str ''SELF'', Str (''You: '' @ msg)]] \<and>
           chat_log (ctx s') = chat_log (ctx s) @ [(chan, lower (username s), ''SELF'', msg)] \<and>
           bot_state (ctx s') = (bot_state (ctx s))(chan \<mapsto> BLast msg t)) \<and>
         outgoing s0 clock0 t0 = Some (Inr s0) \<and>
         outgoing s1 clock1 t1 = None"
proof -
  from wait_allow_some[OF assms(4)] obtain lm n where w: "wait_allow (limiter s) clock = Some (lm, n)"
    by blast
  from outgoing_pops_front[OF assms(1,2,3) w, of t] w
  have 1: "\<exists>s' lm n. outgoing s clock t = Some (Inr s') \<and>
           wait_allow (limiter s) clock = Some (lm, n) \<and>
           send_queue (ctx s') = rest \<and>
           limiter s' = lm \<and>
           sock s' = Some (sk\<lparr>sent := sent sk @ [''PRIVMSG #'' @ chan @ '' :'' @ msg @ CRLF]\<rparr>) \<and>
           gui_queue (ctx s') =
             gui_queue (ctx s) @ [Tuple [Str chan, Str ''SELF'', Str (''You: '' @ msg)]] \<and>
           chat_log (ctx s') = chat_log (ctx s) @ [(chan, lower (username s), ''SELF'', msg)] \<and>
           bot_state (ctx s') = (bot_state (ctx s))(chan \<mapsto> BLast msg t)"
    by blast
  have 2: "outgoing s0 clock0 t0 = Some (Inr s0)" using assms(5) by (simp add: outgoing_def)
  have 3: "outgoing s1 clock1 t1 = None"
    using assms(7) wait_allow_none[OF assms(6)]
    by (cases item) (simp add: outgoing_def Let_def)
  show ?thesis using 1 2 3 by blast
qed

theorem outgoing_front_item_witness:
  "send_queue (ctx ((IRCShard_init [''foo''] ''shard_0''
        (RuntimeContext_init\<lparr>send_queue := [(''foo'', ''hi'')]\<rparr>) None 0)
       \<lparr>sock := Some \<lparr>alive = True, sent = []\<rparr>\<rparr>)) = [(''foo'', ''hi'')] \<and>
   fst (allow_seq (TwitchLimiter_init MSG_LIMIT MSG_WINDOW MIN_MSG_DELAY 0) [1, 100]) = [False, True] \<and>
   fst (allow_seq (TwitchLimiter_init MSG_LIMIT MSG_WINDOW MIN_MSG_DELAY 0) [1]) = [False] \<and>
   outgoing ((IRCShard_init [''foo''] ''shard_0''
        (RuntimeContext_init\<lparr>send_queue := [(''foo'', ''hi'')]\<rparr>) None 0)
       \<lparr>sock := Some \<lparr>alive = True, sent = []\<rparr>\<rparr>) [1] 1 = None \<and>
   map_option (map_sum sent_data sent_data)
     (outgoing ((IRCShard_init [''foo''] ''shard_0''
        (RuntimeContext_init\<lparr>send_queue := [(''foo'', ''hi'')]\<rparr>) None 0)
       \<lparr>sock := Some \<lparr>alive = True, sent = []\<rparr>\<rparr>) [1, 100] 100) =
     Some (Inr [''PRIVMSG #foo :hi'' @ CRLF])"
proof -
  let ?s = "(IRCShard_init [''foo''] ''shard_0''
        (RuntimeContext_init\<lparr>send_queue := [(''foo'', ''hi'')]\<rparr>) None 0)
       \<lparr>sock := Some \<lparr>alive = True, sent = []\<rparr>\<rparr>"
  let ?idle = "IRCShard_init [''foo''] ''shard_0'' RuntimeContext_init None 0"
  have lm: "limiter ?s = TwitchLimiter_init MSG_LIMIT MSG_WINDOW MIN_MSG_DELAY 0"
    by (simp add: IRCShard_init_def)
  have a2: "fst (allow_seq (TwitchLimiter_init MSG_LIMIT MSG_WINDOW MIN_MSG_DELAY 0) [1, 100]) = [False, True]"
    by (simp add: TwitchLimiter_init_def allow_def Let_def MSG_LIMIT_def MSG_WINDOW_def MIN_MSG_DELAY_def)
  have a1: "fst (allow_seq (TwitchLimiter_init MSG_LIMIT MSG_WINDOW MIN_MSG_DELAY 0) [1]) = [False]"
    by (simp add: TwitchLimiter_init_def allow_def Let_def MSG_LIMIT_def MSG_WINDOW_def MIN_MSG_DELAY_def)
  have h1: "sock ?s = Some \<lparr>alive = True, sent = []\<rparr>" by simp
  have h2: "alive \<lparr>alive = True, sent = []\<rparr>" by simp
  have h3: "send_queue (ctx ?s) = (''foo'', ''hi'') # []"
    by (simp add: IRCShard_init_def RuntimeContext_init_def)
  have h4: "True \<in> set (fst (allow_seq (limiter ?s) [1, 100]))" unfolding lm a2 by simp
  have h5: "send_queue (ctx ?idle) = []" by (simp add: IRCShard_init_def RuntimeContext_init_def)
  have h6: "True \<notin> set (fst (allow_seq (limiter ?s) [1]))" unfolding lm a1 by simp
  from outgoing_front_item[OF h1 h2 h3 h4 h5 h6 h3, where t = 100 and ?t1.0 = 1]
  obtain s' where
    r: "outgoing ?s [1, 100] 100 = Some (Inr s')"
       "sock s' = Some (\<lparr>alive = True, sent = []\<rparr>\<lparr>sent :=
          sent \<lparr>alive = True, sent = []\<rparr> @ [''PRIVMSG #'' @ ''foo'' @ '' :'' @ ''hi'' @ CRLF]\<rparr>)"
    and n: "outgoing ?s [1] 1 = None"
    by blast
  have "map_option (map_sum sent_data sent_data) (outgoing ?s [1, 100] 100) =
     Some (Inr [''PRIVMSG #foo :hi'' @ CRLF])"
    unfolding r(1) using r(2) by (simp add: sent_data_def)
  then show ?thesis using h3 a1 a2 n by simp
qed

text \<open>
  Claim C2 as stated fails: a shard that owns only channel foo takes the item addressed to
  channel bar from the send queue and sends it.
\<close>

theorem outgoing_foreign_channel:
  "''bar'' \<notin> set (channels ((IRCShard_init [''foo''] ''shard_0''
        (RuntimeContext_init\<lparr>send_queue := [(''bar'', ''hi'')]\<rparr>) None 0)
       \<lparr>sock := Some \<lparr>alive = True, sent = []\<rparr>\<rparr>)) \<and>
   send_queue (ctx ((IRCShard_init [''foo''] ''shard_0''
        (RuntimeContext_init\<lparr>send_queue := [(''bar'', ''hi'')]\<rparr>) None 0)
       \<lparr>sock := Some \<lparr>alive = True, sent = []\<rparr>\<rparr>)) = [(''bar'', ''hi'')] \<and>
   map_option (map_sum sent_data sent_data)
     (outgoing ((IRCShard_init [''foo''] ''shard_0''
        (RuntimeContext_init\<lparr>send_queue := [(''bar'', ''hi'')]\<rparr>) None 0)
       \<lparr>sock := Some \<lparr>alive = True, sent = []\<rparr>\<rparr>) [100] 100) =
     Some (Inr [''PRIVMSG #bar :hi'' @ CRLF])"
  by (simp add: IRCShard_init_def RuntimeContext_init_def outgoing_def Let_def
      TwitchLimiter_init_def allow_def MSG_LIMIT_def MSG_WINDOW_def MIN_MSG_DELAY_def
      sock_send_def log_chat_def gui_put_def sent_data_def)

section \<open>Shard partitioning\<close>

text \<open>The equation of \<open>range_from\<close> is unfolded by hand, one step at a time.\<close>

declare range_from.simps [simp del]

lemma range_from_done: "m \<le> i \<Longrightarrow> range_from i m n = []"
  by (subst range_from.simps) simp

lemma range_from_step: "0 < n \<Longrightarrow> i < m \<Longrightarrow> range_from i m n = i # range_from (i + n) m n"
  by (subst range_from.simps) simp

lemma range_from_concat:
  "0 < n \<Longrightarrow> i \<le> length xs \<Longrightarrow>
     concat (map (\<lambda>j. take n (drop j xs)) (range_from i (length xs) n)) = drop i xs"
proof (induction i "length xs" n rule: range_from.induct)
  case (1 i step)
  show ?case
  proof (cases "length xs \<le> i")
    case True
    then show ?thesis by (simp add: range_from_done)
  next
    case False
    then have unf: "range_from i (length xs) step = i # range_from (i + step) (length xs) step"
      using 1(2) by (simp add: range_from_step)
    have split: "take step (drop i xs) @ drop (i + step) xs = drop i xs"
      by (metis add.commute append_take_drop_id drop_drop)
    show ?thesis
    proof (cases "i + step \<le> length xs")
      case True
      with 1 False have "concat (map (\<lambda>j. take step (drop j xs)) (range_from (i + step) (length xs) step))
          = drop (i + step) xs" by simp
      then show ?thesis unfolding unf using split by simp
    next
      case over: False
      then have "range_from (i + step) (length xs) step = []" by (simp add: range_from_done)
      then show ?thesis unfolding unf using over by simp
    qed
  qed
qed

lemma range_from_bound: "j \<in> set (range_from i m n) \<Longrightarrow> j < m"
proof (induction i m n rule: range_from.induct)
  case (1 i m n)
  show ?case
  proof (cases "n = 0 \<or> m \<le> i")
    case True
    then have "range_from i m n = []" by (subst range_from.simps) simp
    then show ?thesis using 1(2) by simp
  next
    case False
    then have "range_from i m n = i # range_from (i + n) m n" by (simp add: range_from_step)
    then show ?thesis using 1 False by auto
  qed
qed

lemma rebuild_channels:
  "map channels (snd (rebuild_shards old c dd t0)) =
     map (\<lambda>j. take MAX_CHANNELS_PER_CONN (drop j (sorted_list_of_set (active_channels c))))
       (range_from 0 (length (sorted_list_of_set (active_channels c))) MAX_CHANNELS_PER_CONN)"
proof -
  let ?xs = "sorted_list_of_set (active_channels c)"
  let ?n = MAX_CHANNELS_PER_CONN
  have n: "0 < ?n" by (simp add: MAX_CHANNELS_PER_CONN_def)
  have "map channels (concat (map (\<lambda>i. let shard_channels = take ?n (drop i ?xs) in
                         if shard_channels = [] then []
                         else [IRCShard_init shard_channels (''shard_'' @ str_nat (i div ?n)) c dd t0]) js))
        = map (\<lambda>j. take ?n (drop j ?xs)) js" if "\<forall>j\<in>set js. j < length ?xs" for js
    using that n by (induction js) (auto simp: Let_def IRCShard_init_def)
  then show ?thesis using range_from_bound[of _ 0 "length ?xs" ?n]
    by (simp add: rebuild_shards_def Let_def)
qed

lemma groups_23:
  "length xs = 23 \<Longrightarrow>
     map length (map (\<lambda>j. take 10 (drop j xs)) (range_from 0 (length xs) 10)) = [10, 10, 3]"
  by (simp add: range_from_step range_from_done)

lemma distinct_concat_disjoint:
  "distinct (concat xss) \<Longrightarrow> i < j \<Longrightarrow> j < length xss \<Longrightarrow> set (xss ! i) \<inter> set (xss ! j) = {}"
proof (induction xss arbitrary: i j)
  case Nil
  then show ?case by simp
next
  case (Cons x xss)
  obtain j' where j: "j = Suc j'" using Cons.prems(2) by (cases j) auto
  have d: "distinct (concat xss)" "set x \<inter> set (concat xss) = {}" using Cons.prems(1) by auto
  show ?case
  proof (cases i)
    case 0
    have "xss ! j' \<in> set xss" using Cons.prems(3) j by simp
    then have "set (xss ! j') \<subseteq> set (concat xss)" by auto
    then show ?thesis using 0 j d(2) by auto
  next
    case (Suc i')
    then show ?thesis using Cons.IH[OF d(1), of i' j'] Cons.prems(2,3) j by simp
  qed
qed

lemma rebuild_concat:
  "concat (map channels (snd (rebuild_shards old c dd t0))) = sorted_list_of_set (active_channels c)"
proof -
  have "0 < MAX_CHANNELS_PER_CONN" by (simp add: MAX_CHANNELS_PER_CONN_def)
  from range_from_concat[OF this, of 0 "sorted_list_of_set (active_channels c)"]
  show ?thesis by (simp add: rebuild_channels)
qed

lemma rebuild_sizes:
  assumes "s \<in> set (snd (rebuild_shards old c dd t0))"
  shows "0 < length (channels s) \<and> length (channels s) \<le> 10"
proof -
  let ?xs = "sorted_list_of_set (active_channels c)"
  from assms have "channels s \<in> set (map channels (snd (rebuild_shards old c dd t0)))" by simp
  then obtain j where j: "j \<in> set (range_from 0 (length ?xs) MAX_CHANNELS_PER_CONN)"
      "channels s = take MAX_CHANNELS_PER_CONN (drop j ?xs)"
    unfolding rebuild_channels by auto
  from range_from_bound[OF j(1)] j(2) show ?thesis by (simp add: MAX_CHANNELS_PER_CONN_def)
qed

text \<open>
  Claim C3. \<^verbatim>\<open>rebuild_shards\<close> sorts the active channels and cuts the sorted list into
  consecutive groups, one new shard per group: the shards' channel lists, in order, make up
  the sorted list, so every active channel is in exactly one shard and no channel is in
  two; every shard has between 1 and 10 channels; with 23 active channels there are three
  shards, of 10, 10 and 3 channels.
\<close>

theorem rebuild_shards_partition:
  assumes "finite (active_channels c)"
  shows "concat (map channels (snd (rebuild_shards old c dd t0))) =
           sorted_list_of_set (active_channels c) \<and>
         distinct (concat (map channels (snd (rebuild_shards old c dd t0)))) \<and>
         set (concat (map channels (snd (rebuild_shards old c dd t0)))) = active_channels c \<and>
         (\<forall>s\<in>set (snd (rebuild_shards old c dd t0)).
            0 < length (channels s) \<and> length (channels s) \<le> 10) \<and>
         (\<forall>ch\<in>active_channels c. \<exists>!i. i < length (snd (rebuild_shards old c dd t0)) \<and>
            ch \<in> set (channels (snd (rebuild_shards old c dd t0) ! i))) \<and>
         (card (active_channels c) = 23 \<longrightarrow>
            map (\<lambda>s. length (channels s)) (snd (rebuild_shards old c dd t0)) = [10, 10, 3])"
proof -
  let ?new = "snd (rebuild_shards old c dd t0)"
  let ?xs = "sorted_list_of_set (active_channels c)"
  have 1: "concat (map channels ?new) = ?xs" by (rule rebuild_concat)
  have 2: "distinct (concat (map channels ?new))" unfolding 1 by simp
  have 3: "set (concat (map channels ?new)) = active_channels c" unfolding 1 using assms by simp
  have 4: "\<forall>s\<in>set ?new. 0 < length (channels s) \<and> length (channels s) \<le> 10"
    using rebuild_sizes by blast
  have 5: "\<exists>!i. i < length ?new \<and> ch \<in> set (channels (?new ! i))" if ch: "ch \<in> active_channels c" for ch
  proof -
    from ch 3 have "ch \<in> set (concat (map channels ?new))" by simp
    then obtain s where s: "s \<in> set ?new" "ch \<in> set (channels s)" by auto
    then obtain i where i: "i < length ?new" "?new ! i = s" by (auto simp: in_set_conv_nth)
    have "j = i" if j: "j < length ?new" "ch \<in> set (channels (?new ! j))" for j
    proof (rule ccontr)
      assume ne: "j \<noteq> i"
      let ?cs = "map channels ?new"
      have "set (?cs ! i) \<inter> set (?cs ! j) = {}"
      proof (cases "i < j")
        case True
        then show ?thesis using distinct_concat_disjoint[OF 2, of i j] j(1) by simp
      next
        case False
        then have "j < i" using ne by simp
        then show ?thesis using distinct_concat_disjoint[OF 2, of j i] i(1) by auto
      qed
      then show False using i j s by auto
    qed
    then show ?thesis using i s(2) by blast
  qed
  have 6: "map (\<lambda>s. length (channels s)) ?new = [10, 10, 3]" if "card (active_channels c) = 23"
  proof -
    have "length ?xs = 23" using that by simp
    from groups_23[OF this] have "map length (map channels ?new) = [10, 10, 3]"
      by (simp add: rebuild_channels MAX_CHANNELS_PER_CONN_def)
    then show ?thesis by (simp add: comp_def)
  qed
  show ?thesis using 1 2 3 4 5 6 by blast
qed

theorem rebuild_shards_partition_witness:
  "finite (set [''ch_u'', ''ch_f'', ''ch_q'', ''ch_j'', ''ch_t'', ''ch_w'', ''ch_l'', ''ch_n'', ''ch_a'', ''ch_h'', ''ch_b'', ''ch_v'', ''ch_m'', ''ch_g'', ''ch_k'', ''ch_r'', ''ch_o'', ''ch_p'', ''ch_d'', ''ch_i'', ''ch_c'', ''ch_s'', ''ch_e'']) \<and>
   card (set [''ch_u'', ''ch_f'', ''ch_q'', ''ch_j'', ''ch_t'', ''ch_w'', ''ch_l'', ''ch_n'', ''ch_a'', ''ch_h'', ''ch_b'', ''ch_v'', ''ch_m'', ''ch_g'', ''ch_k'', ''ch_r'', ''ch_o'', ''ch_p'', ''ch_d'', ''ch_i'', ''ch_c'', ''ch_s'', ''ch_e'']) = 23 \<and>
   concat (map channels (snd (rebuild_shards []
      (RuntimeContext_init\<lparr>active_channels := set [''ch_u'', ''ch_f'', ''ch_q'', ''ch_j'', ''ch_t'', ''ch_w'', ''ch_l'', ''ch_n'', ''ch_a'', ''ch_h'', ''ch_b'', ''ch_v'', ''ch_m'', ''ch_g'', ''ch_k'', ''ch_r'', ''ch_o'', ''ch_p'', ''ch_d'', ''ch_i'', ''ch_c'', ''ch_s'', ''ch_e'']\<rparr>) None 0))) =
     [''ch_a'', ''ch_b'', ''ch_c'', ''ch_d'', ''ch_e'', ''ch_f'', ''ch_g'', ''ch_h'', ''ch_i'', ''ch_j'', ''ch_k'', ''ch_l'', ''ch_m'', ''ch_n'', ''ch_o'', ''ch_p'', ''ch_q'', ''ch_r'', ''ch_s'', ''ch_t'', ''ch_u'', ''ch_v'', ''ch_w''] \<and>
   map (\<lambda>s. length (channels s)) (snd (rebuild_shards []
      (RuntimeContext_init\<lparr>active_channels := set [''ch_u'', ''ch_f'', ''ch_q'', ''ch_j'', ''ch_t'', ''ch_w'', ''ch_l'', ''ch_n'', ''ch_a'', ''ch_h'', ''ch_b'', ''ch_v'', ''ch_m'', ''ch_g'', ''ch_k'', ''ch_r'', ''ch_o'', ''ch_p'', ''ch_d'', ''ch_i'', ''ch_c'', ''ch_s'', ''ch_e'']\<rparr>) None 0)) = [10, 10, 3]"
proof -
  let ?A = "set [''ch_u'', ''ch_f'', ''ch_q'', ''ch_j'', ''ch_t'', ''ch_w'', ''ch_l'', ''ch_n'', ''ch_a'', ''ch_h'', ''ch_b'', ''ch_v'', ''ch_m'', ''ch_g'', ''ch_k'', ''ch_r'', ''ch_o'', ''ch_p'', ''ch_d'', ''ch_i'', ''ch_c'', ''ch_s'', ''ch_e'']"
  let ?c = "RuntimeContext_init\<lparr>active_channels := ?A\<rparr>"
  have a: "active_channels ?c = ?A" by (simp add: RuntimeContext_init_def)
  have fin: "finite (active_channels ?c)" unfolding a by simp
  have card: "card ?A = 23" by code_simp
  have srt: "sorted_list_of_set ?A = [''ch_a'', ''ch_b'', ''ch_c'', ''ch_d'', ''ch_e'', ''ch_f'', ''ch_g'', ''ch_h'', ''ch_i'', ''ch_j'', ''ch_k'', ''ch_l'', ''ch_m'', ''ch_n'', ''ch_o'', ''ch_p'', ''ch_q'', ''ch_r'', ''ch_s'', ''ch_t'', ''ch_u'', ''ch_v'', ''ch_w'']" by code_simp
  from rebuild_shards_partition[OF fin, of "[]" None 0]
  show ?thesis unfolding a using card srt by simp
qed

section \<open>Audio capture backpressure\<close>

lemma frombuffer_some:
  "length raw mod 4 = 0 \<Longrightarrow> \<exists>samples. frombuffer raw = Some samples \<and> length samples = length raw div 4"
proof (induction raw rule: frombuffer.induct)
  case 1
  show ?case by simp
next
  case (2 a b c d rest)
  then have "length rest mod 4 = 0" by simp
  with 2 obtain samples where "frombuffer rest = Some samples" "length samples = length rest div 4"
    by blast
  then show ?case by simp
qed simp_all

lemma frombuffer_none: "length raw mod 4 \<noteq> 0 \<Longrightarrow> frombuffer raw = None"
  by (induction raw rule: frombuffer.induct) simp_all

text \<open>
  Claim C7. When no shutdown is seen and a non-empty chunk of whole 4-byte samples was
  read, the worker looks at the depth of the audio queue before it enqueues: above 50 the
  chunk is discarded, the state is unchanged and the loop goes on to the next read;
  otherwise the chunk is appended to the queue as one record with the channel, the
  samples, \<open>chunk_start = idx * CHUNK_DURATION\<close> and \<open>chunk_end = (idx + 1) * CHUNK_DURATION\<close>,
  and \<open>idx\<close> is incremented.
\<close>

theorem capture_backpressure:
  assumes "poll_shutdown st = (False, st1)" and "raw \<noteq> []" and "length raw mod 4 = 0"
  shows "\<exists>samples. frombuffer raw = Some samples \<and> length samples = length raw div 4 \<and>
           capture_step channel st raw =
             (if length (audio_queue st1) > 50 then (NextChunk, st1)
              else (NextChunk,
                    st1\<lparr>audio_queue := audio_queue st1 @
                           [\<lparr>pk_channel = channel, pk_audio_data = samples,
                             pk_chunk_start = idx st1 * CHUNK_DURATION,
                             pk_chunk_end = (idx st1 + 1) * CHUNK_DURATION\<rparr>],
                         idx := idx st1 + 1\<rparr>))"
proof -
  from frombuffer_some[OF assms(3)] obtain samples where
    s: "frombuffer raw = Some samples" "length samples = length raw div 4" by blast
  then show ?thesis using assms(1,2) by (simp add: capture_step_def)
qed

theorem capture_backpressure_witness:
  "poll_shutdown \<lparr>audio_queue = [], worker_control = [], idx = 2, process_terminated = False\<rparr> =
     (False, \<lparr>audio_queue = [], worker_control = [], idx = 2, process_terminated = False\<rparr>) \<and>
   length [CHR 0x00, CHR 0x00, CHR 0x80, CHR 0x3F] mod 4 = 0 \<and>
   capture_step ''foo'' \<lparr>audio_queue = [], worker_control = [], idx = 2, process_terminated = False\<rparr>
       [CHR 0x00, CHR 0x00, CHR 0x80, CHR 0x3F] =
     (NextChunk, \<lparr>audio_queue = [\<lparr>pk_channel = ''foo'',
          pk_audio_data = [Float32 (CHR 0x00) (CHR 0x00) (CHR 0x80) (CHR 0x3F)],
          pk_chunk_start = 10, pk_chunk_end = 15\<rparr>],
        worker_control = [], idx = 3, process_terminated = False\<rparr>) \<and>
   capture_step ''foo''
       \<lparr>audio_queue = replicate 51 \<lparr>pk_channel = ''bar'', pk_audio_data = [],
                                      pk_chunk_start = 0, pk_chunk_end = 5\<rparr>,
        worker_control = [], idx = 2, process_terminated = False\<rparr>
       [CHR 0x00, CHR 0x00, CHR 0x80, CHR 0x3F] =
     (NextChunk,
      \<lparr>audio_queue = replicate 51 \<lparr>pk_channel = ''bar'', pk_audio_data = [],
                                      pk_chunk_start = 0, pk_chunk_end = 5\<rparr>,
        worker_control = [], idx = 2, process_terminated = False\<rparr>)"
proof -
  let ?st = "\<lparr>audio_queue = [], worker_control = [], idx = 2, process_terminated = False\<rparr>"
  let ?full = "\<lparr>audio_queue = replicate 51 \<lparr>pk_channel = ''bar'', pk_audio_data = [],
                                      pk_chunk_start = 0, pk_chunk_end = 5\<rparr>,
        worker_control = [], idx = 2, process_terminated = False\<rparr>"
  let ?raw = "[CHR 0x00, CHR 0x00, CHR 0x80, CHR 0x3F]"
  have h1: "poll_shutdown ?st = (False, ?st)" by (simp add: poll_shutdown_def)
  have f1: "poll_shutdown ?full = (False, ?full)" by (simp add: poll_shutdown_def)
  have h2: "?raw \<noteq> []" by simp
  have h3: "length ?raw mod 4 = 0" by simp
  from capture_backpressure[OF h1 h2 h3, of "''foo''"] capture_backpressure[OF f1 h2 h3, of "''foo''"]
  show ?thesis using h1 h3 by (simp add: CHUNK_DURATION_def)
qed

section \<open>Event bridge dispatch\<close>

text \<open>
  Claim C8. For a queue item that is a 3-tuple of strings (channel, kind, text) whose first
  element is none of \<^verbatim>\<open>GUI_UPDATE_META\<close>, \<^verbatim>\<open>ONLINE_PROMPT\<close>, \<^verbatim>\<open>GUI_JOIN_NOW\<close>: when the
  channel is \<^verbatim>\<open>SYSTEM\<close> or \<^verbatim>\<open>EXPERIMENT_DATA\<close> nothing is emitted; otherwise exactly one
  \<^verbatim>\<open>chat_message\<close> event is emitted to all clients, carrying the channel, the kind, the
  text and the receipt time.
\<close>

theorem bridge_dispatch_generic:
  assumes "channel \<noteq> ''GUI_UPDATE_META''" and "channel \<noteq> ''ONLINE_PROMPT''"
      and "channel \<noteq> ''GUI_JOIN_NOW''"
  shows "QueueBridge_dispatch timestamp (Tuple [Str channel, Str kind, Str text]) =
           (if channel = ''SYSTEM'' \<or> channel = ''EXPERIMENT_DATA'' then Inr []
            else Inr [(''chat_message'',
                       [(''channel'', Str channel), (''tag'', Str kind), (''text'', Str text),
                        (''timestamp'', Str timestamp)])])"
  using assms by (simp add: QueueBridge_dispatch_def item_at_def)

theorem bridge_dispatch_generic_witness:
  "''foo'' \<noteq> ''GUI_UPDATE_META'' \<and> ''foo'' \<noteq> ''ONLINE_PROMPT'' \<and> ''foo'' \<noteq> ''GUI_JOIN_NOW'' \<and>
   ''SYSTEM'' \<noteq> ''GUI_UPDATE_META'' \<and> ''SYSTEM'' \<noteq> ''ONLINE_PROMPT'' \<and> ''SYSTEM'' \<noteq> ''GUI_JOIN_NOW'' \<and>
   QueueBridge_dispatch ''12:00:00'' (Tuple [Str ''foo'', Str ''CHAT'', Str ''alice: hello'']) =
     Inr [(''chat_message'',
           [(''channel'', Str ''foo''), (''tag'', Str ''CHAT''), (''text'', Str ''alice: hello''),
            (''timestamp'', Str ''12:00:00'')])] \<and>
   QueueBridge_dispatch ''12:00:00'' (Tuple [Str ''SYSTEM'', Str ''SYSTEM'', Str ''Shard shard_0 connected to 1 channels'']) =
     Inr []"
proof -
  have f: "''foo'' \<noteq> ''GUI_UPDATE_META''" "''foo'' \<noteq> ''ONLINE_PROMPT''" "''foo'' \<noteq> ''GUI_JOIN_NOW''"
    by simp_all
  have s: "''SYSTEM'' \<noteq> ''GUI_UPDATE_META''" "''SYSTEM'' \<noteq> ''ONLINE_PROMPT''" "''SYSTEM'' \<noteq> ''GUI_JOIN_NOW''"
    by simp_all
  from bridge_dispatch_generic[OF f, of "''12:00:00''" "''CHAT''" "''alice: hello''"]
       bridge_dispatch_generic[OF s, of "''12:00:00''" "''SYSTEM''" "''Shard shard_0 connected to 1 channels''"]
  show ?thesis using f s by simp
qed

section \<open>Registration of the socket handlers\<close>

lemma register_live:
  "\<not> exited p \<Longrightarrow>
     register p = p\<lparr>handlers := (handlers p)(''connect'' \<mapsto> handle_connect,
                                             ''disconnect'' \<mapsto> handle_disconnect)\<rparr>"
  by (simp add: register_def register_body_def)

lemma trigger_shutdown_live:
  "\<not> exited p \<Longrightarrow> trigger_shutdown p = p\<lparr>exited := True\<rparr>"
  by (simp add: trigger_shutdown_def trigger_shutdown_body_def)

lemma trigger_shutdown_exited:
  "exited p \<Longrightarrow> trigger_shutdown p = p"
  by (simp add: trigger_shutdown_def trigger_shutdown_body_def)

lemma tick_frame:
  "handlers (tick now p) = handlers p" "wctx (tick now p) = wctx p"
  "connected_clients (tick now p) = connected_clients p"
  "shutdown_timer (tick now p) = shutdown_timer p"
  by (simp_all add: tick_def trigger_shutdown_live)

lemma do_connect_frame:
  "handlers (do_connect sid p) = handlers p" "wctx (do_connect sid p) = wctx p"
  "exited (do_connect sid p) = exited p"
  by (simp_all add: do_connect_def Let_def emit_to_def split: option.splits)

lemma do_disconnect_frame:
  "handlers (do_disconnect sid now p) = handlers p" "wctx (do_disconnect sid now p) = wctx p"
  "exited (do_disconnect sid now p) = exited p"
  by (simp_all add: do_disconnect_def Let_def)

lemma lifecycle_only_request:
  assumes "lifecycle_only c p"
  shows "lifecycle_only c (ws_request now name sid data p)"
proof -
  let ?p1 = "tick now p"
  have t: "lifecycle_only c ?p1" using assms by (simp add: lifecycle_only_def tick_frame)
  show ?thesis
  proof (cases "exited ?p1")
    case True
    then show ?thesis using t by (simp add: ws_request_def Let_def)
  next
    case False
    consider "name = ''connect''" | "name = ''disconnect''" | "name \<noteq> ''connect''" "name \<noteq> ''disconnect''"
      by blast
    then show ?thesis
    proof cases
      case 1
      then show ?thesis using t False
        by (simp add: ws_request_def Let_def lifecycle_only_def run_handler_def do_connect_frame)
    next
      case 2
      then show ?thesis using t False
        by (simp add: ws_request_def Let_def lifecycle_only_def run_handler_def do_disconnect_frame)
    next
      case 3
      then show ?thesis using t False
        by (simp add: ws_request_def Let_def lifecycle_only_def)
    qed
  qed
qed

lemma lifecycle_only_requests:
  "lifecycle_only c p \<Longrightarrow> lifecycle_only c (ws_requests tr p)"
proof (induction tr arbitrary: p)
  case Nil
  then show ?case by simp
next
  case (Cons r tr)
  obtain now name sid data where r: "r = (now, name, sid, data)" by (cases r) auto
  show ?case unfolding r using Cons.IH[OF lifecycle_only_request[OF Cons.prems]] by simp
qed

lemma lifecycle_only_init: "lifecycle_only c (register (web_proc_init c))"
  by (simp add: lifecycle_only_def register_live web_proc_init_def)

text \<open>
  Claim C10. \<^verbatim>\<open>register\<close> installs the handlers of \<^verbatim>\<open>connect\<close> and \<^verbatim>\<open>disconnect\<close> and no
  other. The definitions of the handlers of \<^verbatim>\<open>send_chat\<close>, \<^verbatim>\<open>join_channel\<close>,
  \<^verbatim>\<open>skip_channel\<close>, \<^verbatim>\<open>get_active_channels\<close> and \<^verbatim>\<open>ping\<close> follow \<^verbatim>\<open>os._exit(0)\<close> in
  \<^verbatim>\<open>_trigger_shutdown\<close>, which therefore registers nothing. So after any sequence of
  WebSocket events the registered handlers are still those two, and the send queue and the
  GUI queue are as they were: no request has put a message to send or a
  \<^verbatim>\<open>GUI_JOIN_NOW\<close> command there.
\<close>

theorem websocket_handlers_registered:
  "dom (handlers (register (web_proc_init c))) = {''connect'', ''disconnect''} \<and>
   handlers (trigger_shutdown p) = handlers p \<and>
   exited (trigger_shutdown p) \<and>
   dom (handlers (ws_requests tr (register (web_proc_init c)))) = {''connect'', ''disconnect''} \<and>
   send_queue (wctx (ws_requests tr (register (web_proc_init c)))) = send_queue c \<and>
   gui_queue (wctx (ws_requests tr (register (web_proc_init c)))) = gui_queue c"
proof -
  have 1: "lifecycle_only c (register (web_proc_init c))" by (rule lifecycle_only_init)
  have 2: "lifecycle_only c (ws_requests tr (register (web_proc_init c)))"
    by (rule lifecycle_only_requests[OF 1])
  have 3: "handlers (trigger_shutdown p) = handlers p \<and> exited (trigger_shutdown p)"
    by (cases "exited p") (simp_all add: trigger_shutdown_live trigger_shutdown_exited)
  show ?thesis using 1 2 3 by (auto simp: lifecycle_only_def)
qed

theorem websocket_handlers_registered_witness:
  "send_queue (wctx (ws_requests
      [(0, ''connect'', ''s1'', NoneVal),
       (1, ''send_chat'', ''s1'', Dict [(''channel'', Str ''foo''), (''message'', Str ''hi'')]),
       (2, ''join_channel'', ''s1'', Dict [(''channel'', Str ''foo'')])]
      (register (web_proc_init RuntimeContext_init)))) = [] \<and>
   gui_queue (wctx (ws_requests
      [(0, ''connect'', ''s1'', NoneVal),
       (1, ''send_chat'', ''s1'', Dict [(''channel'', Str ''foo''), (''message'', Str ''hi'')]),
       (2, ''join_channel'', ''s1'', Dict [(''channel'', Str ''foo'')])]
      (register (web_proc_init RuntimeContext_init)))) = [] \<and>
   send_queue (wctx (do_send_chat ''s1'' (Dict [(''channel'', Str ''foo''), (''message'', Str ''hi'')])
      (register (web_proc_init RuntimeContext_init)))) = [(''foo'', ''hi'')]"
proof -
  have "strip ''hi'' = ''hi''" by code_simp
  then have "send_queue (wctx (do_send_chat ''s1'' (Dict [(''channel'', Str ''foo''), (''message'', Str ''hi'')])
      (register (web_proc_init RuntimeContext_init)))) = [(''foo'', ''hi'')]"
    by (simp add: do_send_chat_def dict_get_def emit_to_def register_live web_proc_init_def
        RuntimeContext_init_def Let_def)
  with websocket_handlers_registered[of RuntimeContext_init _
      "[(0, ''connect'', ''s1'', NoneVal),
       (1, ''send_chat'', ''s1'', Dict [(''channel'', Str ''foo''), (''message'', Str ''hi'')]),
       (2, ''join_channel'', ''s1'', Dict [(''channel'', Str ''foo'')])]"]
  show ?thesis by (simp add: RuntimeContext_init_def)
qed

section \<open>Subscriber lifecycle and the deferred shutdown\<close>

lemma due_pending: "due now t \<Longrightarrow> pending t"
  by (cases t) (simp_all add: due_def pending_def)

lemma tick_idle: "\<not> list_ex (due now) (timers p) \<Longrightarrow> tick now p = p"
  by (simp add: tick_def)

lemma tick_clients_idle:
  assumes "timers_ok p" and "connected_clients p \<noteq> {}"
  shows "tick now p = p"
proof -
  have "\<not> pending t" if "t \<in> set (timers p)" for t
    using that assms by (auto simp: timers_ok_def in_set_conv_nth)
  then have "\<not> list_ex (due now) (timers p)" using due_pending by (auto simp: list_ex_iff)
  then show ?thesis by (rule tick_idle)
qed

lemma timers_ok_tick: "timers_ok p \<Longrightarrow> timers_ok (tick now p)"
  by (auto simp: tick_def timers_ok_def trigger_shutdown_live pending_def split: timer.splits)

lemma cancel_nth:
  "i < length ts \<Longrightarrow> cancel tid ts ! i = (if i = tid \<and> pending (ts ! i) then Cancelled else ts ! i)"
  by (auto simp: cancel_def pending_def split: timer.splits)

lemma cancel_length: "length (cancel tid ts) = length ts"
  by (simp add: cancel_def split: timer.splits)

lemma do_connect_fields:
  "timers (do_connect sid p) =
     (case shutdown_timer p of None \<Rightarrow> timers p | Some tid \<Rightarrow> cancel tid (timers p))"
  "shutdown_timer (do_connect sid p) = None"
  "connected_clients (do_connect sid p) = insert sid (connected_clients p)"
  by (simp_all add: do_connect_def Let_def emit_to_def split: option.splits)

lemma do_connect_no_pending:
  assumes "timers_ok p" and "t \<in> set (timers (do_connect sid p))"
  shows "\<not> pending t"
proof -
  from assms(2) obtain i where i: "i < length (timers (do_connect sid p))"
      "timers (do_connect sid p) ! i = t" by (auto simp: in_set_conv_nth)
  show ?thesis
  proof (cases "shutdown_timer p")
    case None
    then have "timers (do_connect sid p) = timers p" by (simp add: do_connect_fields)
    then show ?thesis using i assms(1) None by (auto simp: timers_ok_def)
  next
    case (Some tid)
    then have eq: "timers (do_connect sid p) = cancel tid (timers p)" by (simp add: do_connect_fields)
    then have il: "i < length (timers p)" using i(1) by (simp add: cancel_length)
    show ?thesis
    proof (cases "pending (timers p ! i)")
      case True
      then have "i = tid" using assms(1) il Some by (auto simp: timers_ok_def)
      then have "t = Cancelled" using i(2) eq il True by (simp add: cancel_nth)
      then show ?thesis by (simp add: pending_def)
    next
      case False
      then have "t = timers p ! i" using i(2) eq il by (simp add: cancel_nth)
      then show ?thesis using False by simp
    qed
  qed
qed

lemma timers_ok_connect: "timers_ok p \<Longrightarrow> timers_ok (do_connect sid p)"
  using do_connect_no_pending[of p _ sid] by (auto simp: timers_ok_def)

lemma do_disconnect_fields:
  "connected_clients p - {sid} = {} \<Longrightarrow>
     timers (do_disconnect sid now p) = timers p @ [Pending (now + 3)] \<and>
     shutdown_timer (do_disconnect sid now p) = Some (length (timers p)) \<and>
     connected_clients (do_disconnect sid now p) = {}"
  "connected_clients p - {sid} \<noteq> {} \<Longrightarrow>
     timers (do_disconnect sid now p) = timers p \<and>
     shutdown_timer (do_disconnect sid now p) = shutdown_timer p \<and>
     connected_clients (do_disconnect sid now p) = connected_clients p - {sid}"
  by (simp_all add: do_disconnect_def Let_def)

lemma timers_ok_disconnect:
  assumes "timers_ok p" and "sid \<in> connected_clients p"
  shows "timers_ok (do_disconnect sid now p)"
proof -
  have np: "\<not> pending (timers p ! i)" if "i < length (timers p)" for i
    using that assms by (auto simp: timers_ok_def)
  show ?thesis
  proof (cases "connected_clients p - {sid} = {}")
    case True
    note f = do_disconnect_fields(1)[OF True, of now]
    show ?thesis unfolding timers_ok_def using f np by (auto simp: nth_append)
  next
    case False
    note f = do_disconnect_fields(2)[OF False, of now]
    show ?thesis unfolding timers_ok_def using f np by auto
  qed
qed

lemma timers_ok_request:
  assumes "timers_ok p" and "lifecycle_only c p"
      and "name = ''disconnect'' \<longrightarrow> sid \<in> connected_clients p"
  shows "timers_ok (ws_request now name sid data p)"
proof -
  let ?p1 = "tick now p"
  have t: "timers_ok ?p1" using assms(1) by (rule timers_ok_tick)
  have h: "handlers ?p1 = [''connect'' \<mapsto> handle_connect, ''disconnect'' \<mapsto> handle_disconnect]"
    using assms(2) by (simp add: lifecycle_only_def tick_frame)
  show ?thesis
  proof (cases "exited ?p1")
    case True
    then show ?thesis using t by (simp add: ws_request_def Let_def)
  next
    case False
    consider "name = ''connect''" | "name = ''disconnect''" | "name \<noteq> ''connect''" "name \<noteq> ''disconnect''"
      by blast
    then show ?thesis
    proof cases
      case 1
      then show ?thesis using t h False timers_ok_connect[OF t, of sid]
        by (simp add: ws_request_def Let_def run_handler_def)
    next
      case 2
      then have "sid \<in> connected_clients ?p1" using assms(3) by (simp add: tick_frame)
      from timers_ok_disconnect[OF t this, of now] show ?thesis using 2 h False
        by (simp add: ws_request_def Let_def run_handler_def)
    next
      case 3
      then show ?thesis using t h False by (simp add: ws_request_def Let_def)
    qed
  qed
qed

lemma timers_ok_requests:
  "timers_ok p \<Longrightarrow> lifecycle_only c p \<Longrightarrow> wf_requests tr p \<Longrightarrow> timers_ok (ws_requests tr p)"
proof (induction tr arbitrary: p)
  case Nil
  then show ?case by simp
next
  case (Cons r tr)
  obtain now name sid data where r: "r = (now, name, sid, data)" by (cases r) auto
  let ?p1 = "ws_request now name sid data p"
  have a: "timers_ok ?p1" using Cons.prems r by (auto intro: timers_ok_request)
  have b: "lifecycle_only c ?p1" using Cons.prems(2) by (rule lifecycle_only_request)
  have c: "wf_requests tr ?p1" using Cons.prems(3) r by simp
  from Cons.IH[OF a b c] show ?case unfolding r by simp
qed

lemma timers_ok_init: "timers_ok (register (web_proc_init c))"
  by (simp add: timers_ok_def register_live web_proc_init_def)

lemma tick_no_pending: "\<forall>t\<in>set (timers p). \<not> pending t \<Longrightarrow> tick now p = p"
  using due_pending by (intro tick_idle) (auto simp: list_ex_iff)

lemma connect_request:
  assumes ok: "timers_ok r" and lo: "lifecycle_only c r" and live: "\<not> exited r"
      and early: "\<forall>t\<in>set (timers r). \<not> due now t"
  shows "ws_request now ''connect'' sid data r = do_connect sid r \<and>
         tick t3 (do_connect sid r) = do_connect sid r \<and> \<not> exited (do_connect sid r)"
proof -
  have t: "tick now r = r" using early by (intro tick_idle) (simp add: list_ex_iff)
  have h: "handlers r ''connect'' = Some handle_connect" using lo by (simp add: lifecycle_only_def)
  have 1: "ws_request now ''connect'' sid data r = do_connect sid r"
    using t h live by (simp add: ws_request_def run_handler_def)
  have 2: "tick t3 (do_connect sid r) = do_connect sid r"
    using do_connect_no_pending[OF ok] by (intro tick_no_pending) blast
  show ?thesis using 1 2 live by (simp add: do_connect_frame)
qed

lemma last_disconnect_request:
  assumes ok: "timers_ok p" and lo: "lifecycle_only c p" and live: "\<not> exited p"
      and one: "connected_clients p = {sid}"
  shows "ws_request t1 ''disconnect'' sid data p = do_disconnect sid t1 p \<and>
         timers (do_disconnect sid t1 p) = timers p @ [Pending (t1 + 3)] \<and>
         shutdown_timer (do_disconnect sid t1 p) = Some (length (timers p)) \<and>
         \<not> exited (do_disconnect sid t1 p) \<and>
         (\<forall>t\<in>set (timers p). \<not> pending t)"
proof -
  have ne: "connected_clients p \<noteq> {}" using one by simp
  have t: "tick t1 p = p" by (rule tick_clients_idle[OF ok ne])
  have h: "handlers p ''disconnect'' = Some handle_disconnect" using lo by (simp add: lifecycle_only_def)
  have 1: "ws_request t1 ''disconnect'' sid data p = do_disconnect sid t1 p"
    using t h live by (simp add: ws_request_def run_handler_def)
  have e: "connected_clients p - {sid} = {}" using one by simp
  have np: "\<forall>t\<in>set (timers p). \<not> pending t"
    using ok ne by (auto simp: timers_ok_def in_set_conv_nth)
  show ?thesis using 1 do_disconnect_fields(1)[OF e, of t1] live np
    by (simp add: do_disconnect_frame)
qed

text \<open>
  Claim C9. In any state that the process reaches from \<^verbatim>\<open>register\<close> by WebSocket events
  whose disconnects come from connected clients, and in which it has not exited:
  a client that attaches while the shutdown timer is pending, before its deadline,
  cancels that timer and clears the reference to it, and no later passing of time makes
  the process exit; when the last client detaches at \<open>t1\<close>, a timer with deadline
  \<open>t1 + 3\<close> is started and referenced, the process has not exited yet, and it exits
  once the clock reaches the deadline with no event in between; and when a client
  attaches at some \<open>t2 < t1 + 3\<close> after that detach, no later passing of time makes the
  process exit.
\<close>

theorem subscriber_lifecycle:
  assumes "wf_requests trq (register (web_proc_init c))"
      and "q = ws_requests trq (register (web_proc_init c))" and "\<not> exited q"
      and "shutdown_timer q = Some tid" and "tid < length (timers q)"
      and "timers q ! tid = Pending dl" and "now < dl"
      and "wf_requests trp (register (web_proc_init c))"
      and "p = ws_requests trp (register (web_proc_init c))" and "\<not> exited p"
      and "connected_clients p = {sid}"
      and "t2 < t1 + 3" and "t1 + 3 \<le> t4"
  shows "(timers (ws_request now ''connect'' sid0 d0 q) ! tid = Cancelled \<and>
          shutdown_timer (ws_request now ''connect'' sid0 d0 q) = None \<and>
          \<not> exited (tick t3 (ws_request now ''connect'' sid0 d0 q))) \<and>
         (timers (ws_request t1 ''disconnect'' sid d1 p) = timers p @ [Pending (t1 + 3)] \<and>
          shutdown_timer (ws_request t1 ''disconnect'' sid d1 p) = Some (length (timers p)) \<and>
          \<not> exited (ws_request t1 ''disconnect'' sid d1 p) \<and>
          exited (tick t4 (ws_request t1 ''disconnect'' sid d1 p))) \<and>
         \<not> exited (tick t3 (ws_request t2 ''connect'' sid2 d2
                              (ws_request t1 ''disconnect'' sid d1 p)))"
proof -
  let ?p0 = "register (web_proc_init c)"
  have okq: "timers_ok q" unfolding assms(2)
    by (rule timers_ok_requests[OF timers_ok_init lifecycle_only_init assms(1)])
  have loq: "lifecycle_only c q" unfolding assms(2)
    by (rule lifecycle_only_requests[OF lifecycle_only_init])
  have okp: "timers_ok p" unfolding assms(9)
    by (rule timers_ok_requests[OF timers_ok_init lifecycle_only_init assms(8)])
  have lop: "lifecycle_only c p" unfolding assms(9)
    by (rule lifecycle_only_requests[OF lifecycle_only_init])
  \<comment> \<open>attach while the timer is pending\<close>
  have earlyq: "\<forall>t\<in>set (timers q). \<not> due now t"
  proof
    fix t assume "t \<in> set (timers q)"
    then obtain i where i: "i < length (timers q)" "timers q ! i = t" by (auto simp: in_set_conv_nth)
    show "\<not> due now t"
    proof (cases "pending t")
      case True
      then have "i = tid" using okq i assms(4) by (auto simp: timers_ok_def)
      then have "t = Pending dl" using i(2) assms(6) by simp
      then show ?thesis using assms(7) by (simp add: due_def)
    next
      case False
      then show ?thesis using due_pending by blast
    qed
  qed
  note cq = connect_request[OF okq loq assms(3) earlyq, of sid0 d0 t3]
  have "timers (do_connect sid0 q) ! tid = Cancelled"
    using assms(4,5,6) by (simp add: do_connect_fields cancel_nth pending_def)
  then have A: "timers (ws_request now ''connect'' sid0 d0 q) ! tid = Cancelled \<and>
          shutdown_timer (ws_request now ''connect'' sid0 d0 q) = None \<and>
          \<not> exited (tick t3 (ws_request now ''connect'' sid0 d0 q))"
    using cq by (simp add: do_connect_fields)
  \<comment> \<open>the last client detaches\<close>
  let ?p1 = "do_disconnect sid t1 p"
  note dp = last_disconnect_request[OF okp lop assms(10,11), of t1 d1]
  have due4: "list_ex (due t4) (timers ?p1)"
    using dp assms(13) by (simp add: list_ex_iff due_def)
  have "exited (tick t4 ?p1)" using dp due4 by (simp add: tick_def trigger_shutdown_live)
  then have B: "timers (ws_request t1 ''disconnect'' sid d1 p) = timers p @ [Pending (t1 + 3)] \<and>
          shutdown_timer (ws_request t1 ''disconnect'' sid d1 p) = Some (length (timers p)) \<and>
          \<not> exited (ws_request t1 ''disconnect'' sid d1 p) \<and>
          exited (tick t4 (ws_request t1 ''disconnect'' sid d1 p))"
    using dp by simp
  \<comment> \<open>detach, then attach within the window\<close>
  have ok1: "timers_ok ?p1" using timers_ok_disconnect[OF okp, of sid t1] assms(11) by simp
  have lo1: "lifecycle_only c ?p1" using lop by (simp add: lifecycle_only_def do_disconnect_frame)
  have live1: "\<not> exited ?p1" using dp by simp
  have early1: "\<forall>t\<in>set (timers ?p1). \<not> due t2 t"
    using dp assms(12) due_pending by (auto simp: due_def)
  from connect_request[OF ok1 lo1 live1 early1, of sid2 d2 t3]
  have C: "\<not> exited (tick t3 (ws_request t2 ''connect'' sid2 d2
                              (ws_request t1 ''disconnect'' sid d1 p)))"
    using dp by simp
  show ?thesis using A B C by blast
qed

theorem subscriber_lifecycle_witness:
  "wf_requests [(0, ''connect'', ''a'', NoneVal), (1, ''disconnect'', ''a'', NoneVal)]
     (register (web_proc_init RuntimeContext_init)) \<and>
   shutdown_timer (ws_requests [(0, ''connect'', ''a'', NoneVal), (1, ''disconnect'', ''a'', NoneVal)]
     (register (web_proc_init RuntimeContext_init))) = Some 0 \<and>
   timers (ws_requests [(0, ''connect'', ''a'', NoneVal), (1, ''disconnect'', ''a'', NoneVal)]
     (register (web_proc_init RuntimeContext_init))) = [Pending 4] \<and>
   connected_clients (ws_requests [(0, ''connect'', ''a'', NoneVal)]
     (register (web_proc_init RuntimeContext_init))) = {''a''} \<and>
   exited (tick 5 (ws_request 1 ''disconnect'' ''a'' NoneVal
     (ws_requests [(0, ''connect'', ''a'', NoneVal)] (register (web_proc_init RuntimeContext_init))))) \<and>
   \<not> exited (tick 100 (ws_request 2 ''connect'' ''b'' NoneVal (ws_request 1 ''disconnect'' ''a'' NoneVal
     (ws_requests [(0, ''connect'', ''a'', NoneVal)] (register (web_proc_init RuntimeContext_init))))))"
proof -
  let ?p0 = "register (web_proc_init RuntimeContext_init)"
  let ?trq = "[(0, ''connect'', ''a'', NoneVal), (1, ''disconnect'', ''a'', NoneVal)]"
  let ?trp = "[(0::real, ''connect'', ''a'', NoneVal)]"
  note defs = register_live web_proc_init_def ws_request_def tick_def run_handler_def
    do_connect_def do_disconnect_def emit_to_def Let_def
  have p: "wf_requests ?trp ?p0" "\<not> exited (ws_requests ?trp ?p0)"
    "connected_clients (ws_requests ?trp ?p0) = {''a''}"
    by (simp_all add: defs)
  have q: "wf_requests ?trq ?p0" "\<not> exited (ws_requests ?trq ?p0)"
    "shutdown_timer (ws_requests ?trq ?p0) = Some 0"
    "timers (ws_requests ?trq ?p0) = [Pending 4]"
    by (simp_all add: defs)
  have q5: "0 < length (timers (ws_requests ?trq ?p0))" unfolding q(4) by simp
  have q6: "timers (ws_requests ?trq ?p0) ! 0 = Pending 4" unfolding q(4) by simp
  from subscriber_lifecycle[OF q(1) refl q(2) q(3) q5 q6 _ p(1) refl p(2) p(3),
      where now = 2 and ?t1.0 = 1 and ?t2.0 = 2 and ?t4.0 = 5 and ?t3.0 = 100
        and ?sid2.0 = "''b''" and ?d1.0 = NoneVal and ?d2.0 = NoneVal]
  show ?thesis using p q by simp
qed

end
